theory Spec2Isabelle
  imports
    Main
    "HOL-Library.Sublist"
    "HOL-Library.Char_ord"
    "HOL-Library.List_Lexorder"
    "HOL-Library.Multiset"
begin

section \<open>Python strings\<close>

text \<open>
  A Python \<open>str\<close> is a sequence of code points.  The model is \<^typ>\<open>string\<close>, one
  \<^typ>\<open>char\<close> per code point, which covers the code points 0 to 255; \<open>len\<close> is
  \<^const>\<open>length\<close>.  The tables below are those of CPython restricted to that range.
\<close>

text \<open>The line boundaries of \<open>str.splitlines\<close>: LF, VT, FF, CR, FS, GS, RS and NEL.\<close>

definition is_linebreak :: "char \<Rightarrow> bool" where
  "is_linebreak c \<longleftrightarrow>
     c \<in> {CHR 0x0A, CHR 0x0B, CHR 0x0C, CHR 0x0D, CHR 0x1C, CHR 0x1D, CHR 0x1E, CHR 0x85}"

text \<open>The whitespace of \<open>str.strip()\<close>: TAB, LF, VT, FF, CR, FS, GS, RS, US, space, NEL
  and the no-break space.\<close>

definition is_space :: "char \<Rightarrow> bool" where
  "is_space c \<longleftrightarrow>
     c \<in> {CHR 0x09, CHR 0x0A, CHR 0x0B, CHR 0x0C, CHR 0x0D, CHR 0x1C, CHR 0x1D, CHR 0x1E,
          CHR 0x1F, CHR 0x20, CHR 0x85, CHR 0xA0}"

text \<open>\<open>s.strip()\<close>\<close>

definition strip :: "string \<Rightarrow> string" where
  "strip s = rev (dropWhile is_space (rev (dropWhile is_space s)))"

text \<open>\<open>s.lower()\<close>: the letters A to Z and the upper-case letters of Latin-1 (0xC0 to 0xDE
  without the multiplication sign 0xD7) move up by 32.\<close>

definition lower_char :: "char \<Rightarrow> char" where
  "lower_char c =
     (let n = (of_char c :: nat)
      in if (65 \<le> n \<and> n \<le> 90) \<or> (192 \<le> n \<and> n \<le> 222 \<and> n \<noteq> 215)
         then char_of (n + 32) else c)"

definition lower :: "string \<Rightarrow> string" where
  "lower s = map lower_char s"

text \<open>\<open>s.startswith(p)\<close>\<close>

definition startswith :: "string \<Rightarrow> string \<Rightarrow> bool" where
  "startswith s p \<longleftrightarrow> take (length p) s = p"

text \<open>\<open>sub in s\<close>\<close>

fun str_contains :: "string \<Rightarrow> string \<Rightarrow> bool" where
  "str_contains sub [] \<longleftrightarrow> sub = []"
| "str_contains sub (c # cs) \<longleftrightarrow> startswith (c # cs) sub \<or> str_contains sub cs"

text \<open>\<open>s.splitlines()\<close>: the text up to the next line boundary is a line; the boundary is
  dropped, CR LF counting as one; a text that ends in a boundary has no empty last line.\<close>

function splitlines :: "string \<Rightarrow> string list" where
  "splitlines s =
     (if s = [] then []
      else takeWhile (\<lambda>c. \<not> is_linebreak c) s #
        (case dropWhile (\<lambda>c. \<not> is_linebreak c) s of
           [] \<Rightarrow> []
         | b # r \<Rightarrow>
             if b = CHR 0x0D \<and> startswith r [CHR 0x0A] then splitlines (tl r)
             else splitlines r))"
  by pat_completeness auto
termination
proof (relation "measure length")
  show "wf (measure length)" by simp
next
  fix s :: string and b r
  assume "dropWhile (\<lambda>c. \<not> is_linebreak c) s = b # r"
  then have "Suc (length r) \<le> length s"
    by (metis length_Cons length_dropWhile_le)
  then show "(tl r, s) \<in> measure length" by simp
next
  fix s :: string and b r
  assume "dropWhile (\<lambda>c. \<not> is_linebreak c) s = b # r"
  then have "Suc (length r) \<le> length s"
    by (metis length_Cons length_dropWhile_le)
  then show "(r, s) \<in> measure length" by simp
qed

declare splitlines.simps [simp del]

text \<open>\<open>s.replace(old, new)\<close>: the occurrences of \<open>old\<close> are found from the left and do
  not overlap; an empty \<open>old\<close> matches before every character and at the end.\<close>

function str_replace :: "string \<Rightarrow> string \<Rightarrow> string \<Rightarrow> string" where
  "str_replace old new s =
     (if old = [] then new @ concat (map (\<lambda>c. c # new) s)
      else if s = [] then []
      else if startswith s old then new @ str_replace old new (drop (length old) s)
      else hd s # str_replace old new (tl s))"
  by pat_completeness auto
termination
  by (relation "measure (\<lambda>(old, new, s). length s)") auto

declare str_replace.simps [simp del]

text \<open>\<open>d.get(k, default)\<close> on a dictionary from strings to strings.\<close>

type_synonym frontmatter = "string \<rightharpoonup> string"

definition dict_get :: "frontmatter \<Rightarrow> string \<Rightarrow> string \<Rightarrow> string" where
  "dict_get d k dflt = (case d k of None \<Rightarrow> dflt | Some v \<Rightarrow> v)"

section \<open>Frontmatter\<close>

text \<open>The loop \<open>for i, line in enumerate(lines[1:], 1)\<close> of \<open>parse_frontmatter\<close>, which
  leaves at the first line whose stripped content is \<open>---\<close>; \<open>None\<close> is the
  \<open>end_idx\<close> that was never set.\<close>

fun find_end_idx :: "string list \<Rightarrow> nat \<Rightarrow> nat option" where
  "find_end_idx [] i = None"
| "find_end_idx (line # ls) i =
     (if strip line = ''---'' then Some i else find_end_idx ls (Suc i))"

text \<open>\<open>line.split(sep, 1)\<close> for a one-character separator that occurs in the line: the
  split has two parts, the text before the first separator and the text after it.\<close>

definition split_once :: "char \<Rightarrow> string \<Rightarrow> string \<times> string" where
  "split_once sep line =
     (takeWhile (\<lambda>c. c \<noteq> sep) line, tl (dropWhile (\<lambda>c. c \<noteq> sep) line))"

text \<open>The body of the second loop: \<open>key, value = line.split(":", 1)\<close> under the guard
  \<open>":" in line\<close>, and the store into the dictionary.\<close>

definition store_line :: "frontmatter \<Rightarrow> string \<Rightarrow> frontmatter" where
  "store_line fm line =
     (if str_contains '':'' line
      then (case split_once (CHR '':'') line of (key, val) \<Rightarrow> fm(strip key \<mapsto> strip val))
      else fm)"

definition parse_frontmatter :: "string \<Rightarrow> frontmatter" where
  "parse_frontmatter content =
     (if \<not> startswith content ''---'' then Map.empty
      else
        let lines = splitlines content
        in case find_end_idx (drop 1 lines) 1 of
             None \<Rightarrow> Map.empty
           | Some end_idx \<Rightarrow>
               fold (\<lambda>line fm. store_line fm line) (take (end_idx - 1) (drop 1 lines)) Map.empty)"

text \<open>A markdown file is its name (\<open>Path.name\<close>) and what reading it gives: \<open>None\<close>
  when \<open>open\<close> or \<open>f.read()\<close> raises, which every caller catches.\<close>

record md_file =
  name :: string
  read_file :: "string option"

definition is_public_note :: "md_file \<Rightarrow> bool" where
  "is_public_note file =
     (case read_file file of
        None \<Rightarrow> False
      | Some c \<Rightarrow> lower (dict_get (parse_frontmatter c) ''public'' '''') = ''true'')"

definition has_now_tag :: "md_file \<Rightarrow> bool" where
  "has_now_tag file =
     (case read_file file of
        None \<Rightarrow> False
      | Some c \<Rightarrow> str_contains ''now'' (lower (dict_get (parse_frontmatter c) ''tags'' '''')))"

text \<open>The directory walk \<open>notes_dir.rglob("*.md")\<close> is the list of the files it yields, in
  the order it yields them; \<open>None\<close> is a notes directory that does not exist.\<close>

definition find_public_notes :: "md_file list option \<Rightarrow> md_file list" where
  "find_public_notes notes_dir =
     (case notes_dir of None \<Rightarrow> [] | Some walk \<Rightarrow> filter is_public_note walk)"

definition find_now_notes :: "md_file list option \<Rightarrow> md_file list" where
  "find_now_notes notes_dir =
     (case notes_dir of None \<Rightarrow> [] | Some walk \<Rightarrow> filter has_now_tag walk)"

section \<open>Forward links\<close>

text \<open>
  One attempt of the pattern \<open>\[[^\]]*\]\(([^)]*)\)\<close> at the head of the input, giving the
  captured group and the input after the match.  A starred class followed by the one
  character it excludes can only stop at the first such character, so the greedy search has
  a single candidate: the label runs to the first \<open>]\<close>, which an \<open>(\<close> must follow, and the
  target runs to the first \<open>)\<close>.
\<close>

definition match_link :: "string \<Rightarrow> (string \<times> string) option" where
  "match_link s =
     (case s of
        [] \<Rightarrow> None
      | c # r \<Rightarrow>
          if c \<noteq> CHR ''['' then None
          else (case dropWhile (\<lambda>x. x \<noteq> CHR '']'') r of
                  _ # b # r2 \<Rightarrow>
                    if b \<noteq> CHR ''('' then None
                    else (case dropWhile (\<lambda>x. x \<noteq> CHR '')'') r2 of
                            [] \<Rightarrow> None
                          | _ # r3 \<Rightarrow> Some (takeWhile (\<lambda>x. x \<noteq> CHR '')'') r2, r3))
                | _ \<Rightarrow> None))"

text \<open>\<open>re.findall(LINK_REGEX, line)\<close>: the pattern is tried at each position from the left;
  a match gives its group and the scan goes on behind it, a failure moves one character on.\<close>

function findall :: "string \<Rightarrow> string list" where
  "findall s =
     (if s = [] then []
      else case match_link s of
             Some (link_path, rest) \<Rightarrow> link_path # findall rest
           | None \<Rightarrow> findall (tl s))"
  by pat_completeness auto
termination
proof (relation "measure length")
  show "wf (measure length)" by simp
next
  fix s :: string
  assume "s \<noteq> []"
  then show "(tl s, s) \<in> measure length" by (cases s) simp_all
next
  fix s :: string and m link_path rest
  assume m: "match_link s = Some m" "(link_path, rest) = m"
  then obtain c r b r2 x y where s: "s = c # r"
    and d1: "dropWhile (\<lambda>x. x \<noteq> CHR '']'') r = x # b # r2"
    and d2: "dropWhile (\<lambda>x. x \<noteq> CHR '')'') r2 = y # rest"
    by (auto simp: match_link_def split: list.splits if_splits)
  have "length (x # b # r2) \<le> length r"
    unfolding d1 [symmetric] by (rule length_dropWhile_le)
  moreover have "length (y # rest) \<le> length r2"
    unfolding d2 [symmetric] by (rule length_dropWhile_le)
  ultimately show "(rest, s) \<in> measure length"
    using s by simp
qed

declare findall.simps [simp del]

text \<open>The loop over \<open>enumerate(lines)\<close> of \<open>extract_assets_from_file\<close>, with the index \<open>i\<close>
  and \<open>frontmatter_separator_count\<close> as its state; the result is \<open>end_idx\<close>, which
  stays 0 when the loop ends without the second separator.\<close>

fun scan_separators :: "string list \<Rightarrow> nat \<Rightarrow> nat \<Rightarrow> nat" where
  "scan_separators [] i frontmatter_separator_count = 0"
| "scan_separators (line # ls) i frontmatter_separator_count =
     (if strip line = ''---''
      then (if frontmatter_separator_count + 1 = 2 then i
            else scan_separators ls (Suc i) (frontmatter_separator_count + 1))
      else scan_separators ls (Suc i) frontmatter_separator_count)"

text \<open>\<open>lines[end_idx + 1 :] if end_idx > 0 else lines\<close>\<close>

definition content_lines :: "string list \<Rightarrow> string list" where
  "content_lines lines =
     (let end_idx = scan_separators lines 0 0
      in if end_idx > 0 then drop (end_idx + 1) lines else lines)"

text \<open>The inner loop, over the link paths of one line, appending to \<open>extracted_links\<close>.\<close>

definition append_asset_links :: "string list \<Rightarrow> string list \<Rightarrow> string list" where
  "append_asset_links extracted_links link_paths =
     fold (\<lambda>link_path acc. if str_contains ''assets'' link_path then acc @ [link_path] else acc)
       link_paths extracted_links"

definition extract_assets_from_file :: "md_file \<Rightarrow> string list" where
  "extract_assets_from_file file =
     (case read_file file of
        None \<Rightarrow> []
      | Some c \<Rightarrow>
          fold (\<lambda>line acc. append_asset_links acc (findall line))
            (content_lines (splitlines c)) [])"

section \<open>Whitelist\<close>

text \<open>\<open>all_public_assets\<close> is a Python set, updated with the links of each public note;
  \<open>sorted\<close> orders its elements by code points, lexicographically.\<close>

definition collect_public_assets :: "md_file list option \<Rightarrow> string list" where
  "collect_public_assets notes_dir =
     (let public_notes = find_public_notes notes_dir;
          all_public_assets =
            fold (\<lambda>file acc. acc \<union> set (extract_assets_from_file file)) public_notes {}
      in sorted_list_of_set all_public_assets)"

section \<open>Linking\<close>

text \<open>A joined path \<open>dir / rel\<close> is kept as its two operands.  \<open>link_public_assets\<close>
  returns before it collects anything when the source assets directory does not exist;
  otherwise it computes, for each asset path of the whitelist, the source path and the
  target path of the symlink.\<close>

datatype path = Join string string

definition link_public_assets ::
    "md_file list option \<Rightarrow> string \<Rightarrow> bool \<Rightarrow> string \<Rightarrow> (path \<times> path) list" where
  "link_public_assets notes_dir source_assets_dir source_exists target_dir =
     (if \<not> source_exists then []
      else
        let public_assets = collect_public_assets notes_dir
        in map (\<lambda>asset_path.
                  (Join source_assets_dir (str_replace ''assets/'' '''' asset_path),
                   Join target_dir (str_replace ''assets/'' '''' asset_path)))
             public_assets)"

text \<open>The target filename of one now-post.\<close>

definition target_filename :: "md_file \<Rightarrow> string" where
  "target_filename post =
     (let filename = name post
      in if (startswith filename ''20'' \<or> startswith filename ''19'')
            \<and> length filename \<ge> 10
            \<and> filename ! 4 = CHR ''-''
            \<and> filename ! 7 = CHR ''-''
         then filename
         else (case read_file post of
                 None \<Rightarrow> filename
               | Some c \<Rightarrow>
                   (let date_str = dict_get (parse_frontmatter c) ''date'' ''''
                    in if date_str \<noteq> [] then date_str @ ''_'' @ filename else filename)))"

text \<open>\<open>link_now_posts\<close>: each now-post with the filename of its symlink.\<close>

definition link_now_posts :: "md_file list option \<Rightarrow> (md_file \<times> string) list" where
  "link_now_posts notes_dir =
     map (\<lambda>post. (post, target_filename post)) (find_now_notes notes_dir)"

section \<open>Facts about the string primitives\<close>

lemma startswith_prefix: "startswith s p \<longleftrightarrow> prefix p s"
  by (metis startswith_def prefix_def append_eq_conv_conj append_take_drop_id)

lemma str_contains_sublist: "str_contains sub s \<longleftrightarrow> sublist sub s"
  by (induction s) (auto simp: startswith_prefix sublist_Cons_right)

lemma str_contains_char: "str_contains [c] s \<longleftrightarrow> c \<in> set s"
  by (induction s) (auto simp: startswith_def)

lemma splitlines_Nil [simp]: "splitlines [] = []"
  by (simp add: splitlines.simps)

lemma splitlines_Cons:
  "s \<noteq> [] \<Longrightarrow> \<exists>ls. splitlines s = takeWhile (\<lambda>c. \<not> is_linebreak c) s # ls"
  by (subst splitlines.simps) (simp split: list.splits)

text \<open>A text begins with \<open>---\<close> exactly when its first line does: a hyphen is no line
  boundary.\<close>

lemma startswith_first_line:
  "startswith s ''---'' \<longleftrightarrow> splitlines s \<noteq> [] \<and> startswith (hd (splitlines s)) ''---''"
proof (cases "s = []")
  case True
  then show ?thesis by (simp add: startswith_def)
next
  case False
  then obtain ls where ls: "splitlines s = takeWhile (\<lambda>c. \<not> is_linebreak c) s # ls"
    using splitlines_Cons by blast
  have nb: "\<not> is_linebreak (CHR ''-'')" by (simp add: is_linebreak_def)
  show ?thesis
  proof
    assume "startswith s ''---''"
    then obtain r where "s = ''---'' @ r"
      by (auto simp: startswith_prefix prefix_def)
    then show "splitlines s \<noteq> [] \<and> startswith (hd (splitlines s)) ''---''"
      using ls nb by (simp add: startswith_def)
  next
    assume "splitlines s \<noteq> [] \<and> startswith (hd (splitlines s)) ''---''"
    then have "prefix ''---'' (takeWhile (\<lambda>c. \<not> is_linebreak c) s)"
      using ls by (simp add: startswith_prefix)
    then have "prefix ''---'' s"
      using takeWhile_is_prefix prefix_order.trans by blast
    then show "startswith s ''---''" by (simp add: startswith_prefix)
  qed
qed

section \<open>Facts about the frontmatter parser and the classifiers\<close>

lemma parse_frontmatter_no_opening:
  "\<not> startswith content ''---'' \<Longrightarrow> parse_frontmatter content = Map.empty"
  by (simp add: parse_frontmatter_def)

lemma is_public_note_iff:
  "is_public_note file \<longleftrightarrow>
     (\<exists>c v. read_file file = Some c \<and> parse_frontmatter c ''public'' = Some v
            \<and> lower v = ''true'')"
  by (auto simp: is_public_note_def dict_get_def lower_def split: option.splits)

lemma has_now_tag_iff:
  "has_now_tag file \<longleftrightarrow>
     (\<exists>c v. read_file file = Some c \<and> parse_frontmatter c ''tags'' = Some v
            \<and> sublist ''now'' (lower v))"
  by (auto simp: has_now_tag_def dict_get_def lower_def str_contains_sublist
      split: option.splits)

text \<open>The last element of a list that satisfies a predicate, by decomposition.\<close>

lemma last_match_decomp:
  "(\<exists>pre post. xs @ [y] = pre @ x # post \<and> P x \<and> (\<forall>l\<in>set post. \<not> P l)) \<longleftrightarrow>
     (if P y then x = y
      else (\<exists>pre post. xs = pre @ x # post \<and> P x \<and> (\<forall>l\<in>set post. \<not> P l)))"
proof (cases "P y")
  case True
  show ?thesis
  proof
    assume "\<exists>pre post. xs @ [y] = pre @ x # post \<and> P x \<and> (\<forall>l\<in>set post. \<not> P l)"
    then obtain pre post where d: "xs @ [y] = pre @ x # post" "P x" "\<forall>l\<in>set post. \<not> P l"
      by blast
    have "post = []"
    proof (rule ccontr)
      assume "post \<noteq> []"
      then have "last (pre @ x # post) = last post" by simp
      then have "y = last post" using d(1) by (metis last_snoc)
      then have "y \<in> set post" using \<open>post \<noteq> []\<close> by simp
      then show False using d(3) True by blast
    qed
    then have "x = y" using d(1) by simp
    then show "if P y then x = y
      else (\<exists>pre post. xs = pre @ x # post \<and> P x \<and> (\<forall>l\<in>set post. \<not> P l))"
      using True by simp
  next
    assume "if P y then x = y
      else (\<exists>pre post. xs = pre @ x # post \<and> P x \<and> (\<forall>l\<in>set post. \<not> P l))"
    then have "x = y" using True by simp
    then have "xs @ [y] = xs @ x # [] \<and> P x \<and> (\<forall>l\<in>set []. \<not> P l)" using True by simp
    then show "\<exists>pre post. xs @ [y] = pre @ x # post \<and> P x \<and> (\<forall>l\<in>set post. \<not> P l)"
      by blast
  qed
next
  case False
  show ?thesis
  proof
    assume "\<exists>pre post. xs @ [y] = pre @ x # post \<and> P x \<and> (\<forall>l\<in>set post. \<not> P l)"
    then obtain pre post where d: "xs @ [y] = pre @ x # post" "P x" "\<forall>l\<in>set post. \<not> P l"
      by blast
    have "post \<noteq> []"
    proof
      assume "post = []"
      then have "x = y" using d(1) by simp
      then show False using d(2) False by simp
    qed
    have "last (xs @ [y]) = last (pre @ x # post)" using d(1) by simp
    then have "y = last post" using \<open>post \<noteq> []\<close> by simp
    then have "post = butlast post @ [y]" using \<open>post \<noteq> []\<close> by simp
    then obtain post' where p: "post = post' @ [y]" ..
    then have "xs = pre @ x # post'" using d(1) by simp
    moreover have "\<forall>l\<in>set post'. \<not> P l" using d(3) p by simp
    ultimately show "if P y then x = y
      else (\<exists>pre post. xs = pre @ x # post \<and> P x \<and> (\<forall>l\<in>set post. \<not> P l))"
      using False d(2) by auto
  next
    assume "if P y then x = y
      else (\<exists>pre post. xs = pre @ x # post \<and> P x \<and> (\<forall>l\<in>set post. \<not> P l))"
    then obtain pre post where d: "xs = pre @ x # post" "P x" "\<forall>l\<in>set post. \<not> P l"
      using False by auto
    then have "xs @ [y] = pre @ x # (post @ [y]) \<and> P x \<and> (\<forall>l\<in>set (post @ [y]). \<not> P l)"
      using False by simp
    then show "\<exists>pre post. xs @ [y] = pre @ x # post \<and> P x \<and> (\<forall>l\<in>set post. \<not> P l)"
      by blast
  qed
qed

lemma find_rev_Some:
  "List.find P (rev ls) = Some x \<longleftrightarrow>
     (\<exists>pre post. ls = pre @ x # post \<and> P x \<and> (\<forall>l\<in>set post. \<not> P l))"
proof (induction ls rule: rev_induct)
  case Nil
  then show ?case by simp
next
  case (snoc y ys)
  have "List.find P (rev (ys @ [y])) = Some x \<longleftrightarrow>
      (if P y then x = y else List.find P (rev ys) = Some x)"
    by auto
  also have "\<dots> \<longleftrightarrow> (if P y then x = y
      else (\<exists>pre post. ys = pre @ x # post \<and> P x \<and> (\<forall>l\<in>set post. \<not> P l)))"
    using snoc.IH by simp
  also have "\<dots> \<longleftrightarrow>
      (\<exists>pre post. ys @ [y] = pre @ x # post \<and> P x \<and> (\<forall>l\<in>set post. \<not> P l))"
    by (rule last_match_decomp [symmetric])
  finally show ?case .
qed

text \<open>Splitting at the first occurrence of a character.\<close>

lemma split_first_join:
  "x \<in> set line \<Longrightarrow>
     line = takeWhile (\<lambda>c. c \<noteq> x) line @ x # tl (dropWhile (\<lambda>c. c \<noteq> x) line)"
  by (induction line) auto

lemma takeWhile_first: "x \<notin> set a \<Longrightarrow> takeWhile (\<lambda>c. c \<noteq> x) (a @ x # b) = a"
  by (induction a) auto

lemma dropWhile_first: "x \<notin> set a \<Longrightarrow> dropWhile (\<lambda>c. c \<noteq> x) (a @ x # b) = x # b"
  by (induction a) auto

lemma takeWhile_free: "x \<notin> set (takeWhile (\<lambda>c. c \<noteq> x) line)"
  by (auto dest: set_takeWhileD)

lemma split_once_iff:
  "sep \<in> set line \<and> split_once sep line = (a, b) \<longleftrightarrow> line = a @ sep # b \<and> sep \<notin> set a"
proof
  assume "sep \<in> set line \<and> split_once sep line = (a, b)"
  then have r: "sep \<in> set line" "a = takeWhile (\<lambda>c. c \<noteq> sep) line"
      "b = tl (dropWhile (\<lambda>c. c \<noteq> sep) line)"
    by (simp_all add: split_once_def)
  have "line = a @ sep # b"
    using r split_first_join [of sep line] by simp
  moreover have "sep \<notin> set a"
    using r(2) takeWhile_free [of sep line] by simp
  ultimately show "line = a @ sep # b \<and> sep \<notin> set a" by simp
next
  assume "line = a @ sep # b \<and> sep \<notin> set a"
  then show "sep \<in> set line \<and> split_once sep line = (a, b)"
    by (simp add: split_once_def takeWhile_first dropWhile_first)
qed

lemma find_end_idx_None:
  "find_end_idx ls i = None \<longleftrightarrow> (\<forall>line\<in>set ls. strip line \<noteq> ''---'')"
  by (induction ls arbitrary: i) simp_all

lemma find_end_idx_Some:
  "(\<forall>line\<in>set between. strip line \<noteq> ''---'') \<Longrightarrow> strip closing = ''---'' \<Longrightarrow>
     find_end_idx (between @ closing # rest) i = Some (i + length between)"
  by (induction between arbitrary: i) simp_all

lemma parse_frontmatter_no_closing:
  assumes "\<forall>line\<in>set (drop 1 (splitlines content)). strip line \<noteq> ''---''"
  shows "parse_frontmatter content = Map.empty"
proof -
  have "find_end_idx (drop 1 (splitlines content)) 1 = None"
    using assms by (simp only: find_end_idx_None)
  then show ?thesis
    unfolding parse_frontmatter_def Let_def by (simp only: option.case if_cancel)
qed

lemma parse_frontmatter_block:
  assumes "startswith content ''---''"
    and "splitlines content = first # between @ closing # rest"
    and "\<forall>line\<in>set between. strip line \<noteq> ''---''"
    and "strip closing = ''---''"
  shows "parse_frontmatter content = fold (\<lambda>line fm. store_line fm line) between Map.empty"
proof -
  have d: "drop 1 (splitlines content) = between @ closing # rest"
    by (simp only: assms(2)) simp
  have "find_end_idx (drop 1 (splitlines content)) 1 = Some (1 + length between)"
    unfolding d using assms(3,4) by (rule find_end_idx_Some)
  moreover have "take (1 + length between - 1) (drop 1 (splitlines content)) = between"
    unfolding d by simp
  ultimately show ?thesis
    unfolding parse_frontmatter_def Let_def using assms(1)
    by (simp only: option.case if_not_P not_not)
qed

lemma store_line_apply:
  "store_line fm line k =
     (if CHR '':'' \<in> set line \<and> strip (fst (split_once (CHR '':'') line)) = k
      then Some (strip (snd (split_once (CHR '':'') line))) else fm k)"
  by (simp add: store_line_def str_contains_char split: prod.splits)

lemma fold_store_line:
  "fold (\<lambda>line fm. store_line fm line) ls fm k =
     (case List.find (\<lambda>l. CHR '':'' \<in> set l \<and> strip (fst (split_once (CHR '':'') l)) = k) (rev ls) of
        None \<Rightarrow> fm k
      | Some x \<Rightarrow> Some (strip (snd (split_once (CHR '':'') x))))"
proof (induction ls rule: rev_induct)
  case Nil
  then show ?case by simp
next
  case (snoc y ys)
  then show ?case
    by (simp add: store_line_apply)
qed


lemma stores_key_iff:
  "CHR '':'' \<in> set l \<and> strip (fst (split_once (CHR '':'') l)) = k
      \<and> strip (snd (split_once (CHR '':'') l)) = v \<longleftrightarrow>
   (\<exists>a b. l = a @ '':'' @ b \<and> CHR '':'' \<notin> set a \<and> strip a = k \<and> strip b = v)"
proof
  assume h: "CHR '':'' \<in> set l \<and> strip (fst (split_once (CHR '':'') l)) = k
      \<and> strip (snd (split_once (CHR '':'') l)) = v"
  obtain a b where ab: "split_once (CHR '':'') l = (a, b)" by (cases "split_once (CHR '':'') l")
  then have "l = a @ CHR '':'' # b \<and> CHR '':'' \<notin> set a"
    using h split_once_iff [of "CHR '':''" l a b] by simp
  moreover have "strip a = k \<and> strip b = v" using h ab by simp
  ultimately have "l = a @ '':'' @ b \<and> CHR '':'' \<notin> set a \<and> strip a = k \<and> strip b = v"
    by simp
  then show "\<exists>a b. l = a @ '':'' @ b \<and> CHR '':'' \<notin> set a \<and> strip a = k \<and> strip b = v"
    by (intro exI)
next
  assume "\<exists>a b. l = a @ '':'' @ b \<and> CHR '':'' \<notin> set a \<and> strip a = k \<and> strip b = v"
  then obtain a b where ab: "l = a @ '':'' @ b" "CHR '':'' \<notin> set a" "strip a = k" "strip b = v"
    by (elim exE conjE)
  then have "l = a @ CHR '':'' # b \<and> CHR '':'' \<notin> set a" by simp
  then have "CHR '':'' \<in> set l \<and> split_once (CHR '':'') l = (a, b)"
    by (rule split_once_iff [THEN iffD2])
  then show "CHR '':'' \<in> set l \<and> strip (fst (split_once (CHR '':'') l)) = k
      \<and> strip (snd (split_once (CHR '':'') l)) = v"
    using ab(3,4) by simp
qed

lemma stores_key_iff':
  "CHR '':'' \<in> set l \<and> strip (fst (split_once (CHR '':'') l)) = k \<longleftrightarrow>
   (\<exists>a b. l = a @ '':'' @ b \<and> CHR '':'' \<notin> set a \<and> strip a = k)"
proof -
  have "CHR '':'' \<in> set l \<and> strip (fst (split_once (CHR '':'') l)) = k \<longleftrightarrow>
    (\<exists>v. CHR '':'' \<in> set l \<and> strip (fst (split_once (CHR '':'') l)) = k
      \<and> strip (snd (split_once (CHR '':'') l)) = v)"
    by simp
  also have "\<dots> \<longleftrightarrow> (\<exists>v a b. l = a @ '':'' @ b \<and> CHR '':'' \<notin> set a \<and> strip a = k \<and> strip b = v)"
    by (simp only: stores_key_iff)
  also have "\<dots> \<longleftrightarrow> (\<exists>a b. l = a @ '':'' @ b \<and> CHR '':'' \<notin> set a \<and> strip a = k)"
    by auto
  finally show ?thesis .
qed

lemma fold_store_line_Some:
  "fold (\<lambda>line fm. store_line fm line) ls Map.empty k = Some v \<longleftrightarrow>
     (\<exists>pre a b post. ls = pre @ (a @ '':'' @ b) # post \<and> CHR '':'' \<notin> set a
         \<and> strip a = k \<and> strip b = v
         \<and> (\<forall>l\<in>set post. \<forall>a' b'. l = a' @ '':'' @ b' \<and> CHR '':'' \<notin> set a' \<longrightarrow> strip a' \<noteq> k))"
  (is "?L \<longleftrightarrow> ?R")
proof -
  let ?P = "\<lambda>l. CHR '':'' \<in> set l \<and> strip (fst (split_once (CHR '':'') l)) = k"
  let ?V = "\<lambda>x. strip (snd (split_once (CHR '':'') x))"
  have later: "(\<forall>l\<in>set post. \<not> ?P l) \<longleftrightarrow>
      (\<forall>l\<in>set post. \<forall>a' b'. l = a' @ '':'' @ b' \<and> CHR '':'' \<notin> set a' \<longrightarrow> strip a' \<noteq> k)"
    for post
    by (simp only: stores_key_iff') auto
  have "?L \<longleftrightarrow> (\<exists>x. List.find ?P (rev ls) = Some x \<and> ?V x = v)"
    by (simp add: fold_store_line split: option.splits)
  also have "\<dots> \<longleftrightarrow> (\<exists>x pre post. ls = pre @ x # post
       \<and> (CHR '':'' \<in> set x \<and> strip (fst (split_once (CHR '':'') x)) = k \<and> ?V x = v)
       \<and> (\<forall>l\<in>set post. \<not> ?P l))"
    by (simp only: find_rev_Some) auto
  also have "\<dots> \<longleftrightarrow> (\<exists>x pre post. ls = pre @ x # post
       \<and> (\<exists>a b. x = a @ '':'' @ b \<and> CHR '':'' \<notin> set a \<and> strip a = k \<and> strip b = v)
       \<and> (\<forall>l\<in>set post. \<forall>a' b'. l = a' @ '':'' @ b' \<and> CHR '':'' \<notin> set a' \<longrightarrow> strip a' \<noteq> k))"
    by (simp only: stores_key_iff later)
  also have "\<dots> \<longleftrightarrow> ?R"
    by blast
  finally show ?thesis .
qed

section \<open>Facts about link extraction\<close>

lemma append_asset_links_filter:
  "append_asset_links extracted_links link_paths =
     extracted_links @ filter (sublist ''assets'') link_paths"
  unfolding append_asset_links_def
  by (induction link_paths arbitrary: extracted_links) (simp_all add: str_contains_sublist)

lemma fold_append_asset_links:
  "fold (\<lambda>line acc. append_asset_links acc (findall line)) ls acc =
     acc @ concat (map (\<lambda>line. filter (sublist ''assets'') (findall line)) ls)"
  by (induction ls arbitrary: acc) (simp_all add: append_asset_links_filter)

lemma extract_assets_from_file_concat:
  "extract_assets_from_file file =
     (case read_file file of
        None \<Rightarrow> []
      | Some c \<Rightarrow> concat (map (\<lambda>line. filter (sublist ''assets'') (findall line))
                    (content_lines (splitlines c))))"
  by (simp add: extract_assets_from_file_def fold_append_asset_links split: option.splits)

lemma match_link_iff:
  "match_link s = Some (t, rest) \<longleftrightarrow>
     (\<exists>label. s = ''['' @ label @ '']('' @ t @ '')'' @ rest
        \<and> CHR '']'' \<notin> set label \<and> CHR '')'' \<notin> set t)"
proof
  assume m: "match_link s = Some (t, rest)"
  then obtain c r b r2 x y where s: "s = c # r" and c: "c = CHR ''[''"
    and d1: "dropWhile (\<lambda>x. x \<noteq> CHR '']'') r = x # b # r2" and b: "b = CHR ''(''"
    and d2: "dropWhile (\<lambda>x. x \<noteq> CHR '')'') r2 = y # rest"
    and t: "t = takeWhile (\<lambda>x. x \<noteq> CHR '')'') r2"
    by (auto simp: match_link_def split: list.splits if_splits)
  let ?label = "takeWhile (\<lambda>x. x \<noteq> CHR '']'') r"
  have x: "x = CHR '']''"
    using d1 hd_dropWhile [of "\<lambda>x. x \<noteq> CHR '']''" r] by simp
  have y: "y = CHR '')''"
    using d2 hd_dropWhile [of "\<lambda>x. x \<noteq> CHR '')''" r2] by simp
  have "r = ?label @ x # b # r2"
    using d1 takeWhile_dropWhile_id [of "\<lambda>x. x \<noteq> CHR '']''" r] by simp
  moreover have "r2 = t @ y # rest"
    using d2 t takeWhile_dropWhile_id [of "\<lambda>x. x \<noteq> CHR '')''" r2] by simp
  ultimately have "s = ''['' @ ?label @ '']('' @ t @ '')'' @ rest"
    using s c x y b by simp
  moreover have "CHR '']'' \<notin> set ?label" by (rule takeWhile_free)
  moreover have "CHR '')'' \<notin> set t" unfolding t by (rule takeWhile_free)
  ultimately show "\<exists>label. s = ''['' @ label @ '']('' @ t @ '')'' @ rest
        \<and> CHR '']'' \<notin> set label \<and> CHR '')'' \<notin> set t"
    by blast
next
  assume "\<exists>label. s = ''['' @ label @ '']('' @ t @ '')'' @ rest
        \<and> CHR '']'' \<notin> set label \<and> CHR '')'' \<notin> set t"
  then obtain label where s: "s = CHR ''['' # label @ CHR '']'' # CHR ''('' # t @ CHR '')'' # rest"
    and l: "CHR '']'' \<notin> set label" and t: "CHR '')'' \<notin> set t"
    by auto
  have d1: "dropWhile (\<lambda>x. x \<noteq> CHR '']'') (label @ CHR '']'' # CHR ''('' # t @ CHR '')'' # rest)
      = CHR '']'' # CHR ''('' # t @ CHR '')'' # rest"
    using l by (rule dropWhile_first)
  have d2: "dropWhile (\<lambda>x. x \<noteq> CHR '')'') (t @ CHR '')'' # rest) = CHR '')'' # rest"
    using t by (rule dropWhile_first)
  have t2: "takeWhile (\<lambda>x. x \<noteq> CHR '')'') (t @ CHR '')'' # rest) = t"
    using t by (rule takeWhile_first)
  show "match_link s = Some (t, rest)"
    unfolding match_link_def s by (simp add: d1 d2 t2)
qed

lemma findall_Nil [simp]: "findall [] = []"
  by (simp add: findall.simps)

lemma findall_match:
  "match_link s = Some (t, rest) \<Longrightarrow> findall s = t # findall rest"
  by (subst findall.simps) (auto simp: match_link_def)

lemma findall_no_match:
  "match_link s = None \<Longrightarrow> findall s = findall (tl s)"
  by (subst findall.simps) (simp add: findall.simps [of "tl []"])

lemma findall_sound:
  "t \<in> set (findall s) \<Longrightarrow>
     \<exists>pre label post. s = pre @ ''['' @ label @ '']('' @ t @ '')'' @ post
        \<and> CHR '']'' \<notin> set label \<and> CHR '')'' \<notin> set t"
proof (induction s rule: findall.induct)
  case (1 s)
  show ?case
  proof (cases "s = []")
    case True
    then show ?thesis using "1.prems" by simp
  next
    case False
    show ?thesis
    proof (cases "match_link s")
      case None
      then have "t \<in> set (findall (tl s))"
        using "1.prems" by (simp add: findall_no_match)
      then obtain pre label post where
        d: "tl s = pre @ ''['' @ label @ '']('' @ t @ '')'' @ post"
           "CHR '']'' \<notin> set label" "CHR '')'' \<notin> set t"
        using "1.IH"(1) [OF False None] by blast
      have "s = (hd s # pre) @ ''['' @ label @ '']('' @ t @ '')'' @ post"
        using False d(1) by (cases s) simp_all
      then show ?thesis using d(2,3) by blast
    next
      case (Some m)
      obtain u rest where m: "m = (u, rest)" by (cases m)
      have fa: "findall s = u # findall rest"
        using Some m by (simp add: findall_match)
      obtain lab where
        ms: "s = ''['' @ lab @ '']('' @ u @ '')'' @ rest"
            "CHR '']'' \<notin> set lab" "CHR '')'' \<notin> set u"
        using Some m match_link_iff [of s u rest] by blast
      show ?thesis
      proof (cases "t = u")
        case True
        have "s = [] @ ''['' @ lab @ '']('' @ t @ '')'' @ rest"
          using ms(1) True by simp
        then show ?thesis using ms(2,3) True by blast
      next
        case False
        then have "t \<in> set (findall rest)" using "1.prems" fa by simp
        then obtain pre label post where
          d: "rest = pre @ ''['' @ label @ '']('' @ t @ '')'' @ post"
             "CHR '']'' \<notin> set label" "CHR '')'' \<notin> set t"
          using "1.IH"(2) [OF \<open>s \<noteq> []\<close> Some m [symmetric]] by blast
        have "s = (''['' @ lab @ '']('' @ u @ '')'' @ pre) @ ''['' @ label @ '']('' @ t @ '')'' @ post"
          using ms(1) d(1) by simp
        then show ?thesis using d(2,3) by blast
      qed
    qed
  qed
qed

lemma findall_complete:
  "s = pre @ ''['' @ label @ '']('' @ t @ '')'' @ post \<Longrightarrow> CHR '']'' \<notin> set label \<Longrightarrow>
     CHR '')'' \<notin> set t \<Longrightarrow> findall s \<noteq> []"
proof (induction pre arbitrary: s)
  case Nil
  then have "match_link s = Some (t, post)"
    using match_link_iff [of s t post] by auto
  then show ?case by (simp add: findall_match)
next
  case (Cons c pre)
  show ?case
  proof (cases "match_link s")
    case None
    have "tl s = pre @ ''['' @ label @ '']('' @ t @ '')'' @ post"
      using Cons.prems(1) by simp
    then have "findall (tl s) \<noteq> []"
      using Cons.IH Cons.prems(2,3) by blast
    then show ?thesis using None by (simp add: findall_no_match)
  next
    case (Some m)
    then show ?thesis by (cases m) (simp add: findall_match)
  qed
qed

lemma scan_separators_second:
  "(\<forall>line\<in>set between. strip line \<noteq> ''---'') \<Longrightarrow> strip sep2 = ''---'' \<Longrightarrow>
     scan_separators (between @ sep2 # body) i 1 = i + length between"
  by (induction between arbitrary: i) simp_all

lemma scan_separators_first:
  "(\<forall>line\<in>set pre. strip line \<noteq> ''---'') \<Longrightarrow> strip sep1 = ''---'' \<Longrightarrow>
     scan_separators (pre @ sep1 # r) i 0 = scan_separators r (Suc (i + length pre)) 1"
  by (induction pre arbitrary: i) simp_all

lemma scan_separators_fewer:
  "c + length (filter (\<lambda>line. strip line = ''---'') ls) < 2 \<Longrightarrow> scan_separators ls i c = 0"
proof (induction ls arbitrary: i c)
  case Nil
  then show ?case by simp
next
  case (Cons a ls)
  show ?case
  proof (cases "strip a = ''---''")
    case True
    then have c: "Suc c + length (filter (\<lambda>line. strip line = ''---'') ls) < 2"
      using Cons.prems by simp
    then have "c + 1 \<noteq> 2" by simp
    moreover have "scan_separators ls (Suc i) (c + 1) = 0"
      using c by (intro Cons.IH) simp
    ultimately show ?thesis using True by simp
  next
    case False
    then have "c + length (filter (\<lambda>line. strip line = ''---'') ls) < 2"
      using Cons.prems by simp
    then have "scan_separators ls (Suc i) c = 0" by (rule Cons.IH)
    then show ?thesis using False by simp
  qed
qed

lemma content_lines_two_separators:
  assumes "lines = pre @ sep1 # between @ sep2 # body"
    and "\<forall>line\<in>set pre. strip line \<noteq> ''---''" and "strip sep1 = ''---''"
    and "\<forall>line\<in>set between. strip line \<noteq> ''---''" and "strip sep2 = ''---''"
  shows "content_lines lines = body"
proof -
  have "scan_separators lines 0 0 = scan_separators (between @ sep2 # body) (Suc (length pre)) 1"
    unfolding assms(1) using scan_separators_first [OF assms(2,3), of "between @ sep2 # body" 0]
    by simp
  also have "\<dots> = Suc (length pre) + length between"
    using assms(4,5) by (rule scan_separators_second)
  finally have e: "scan_separators lines 0 0 = Suc (length pre + length between)" by simp
  have "drop (Suc (length pre + length between) + 1) lines = body"
    unfolding assms(1) by simp
  then show ?thesis
    unfolding content_lines_def Let_def e by simp
qed

lemma content_lines_fewer_separators:
  assumes "length (filter (\<lambda>line. strip line = ''---'') lines) < 2"
  shows "content_lines lines = lines"
proof -
  have "scan_separators lines 0 0 = 0"
    using assms by (intro scan_separators_fewer) simp
  then show ?thesis
    unfolding content_lines_def Let_def by simp
qed

lemma leading_space_no_opening:
  assumes "splitlines content = first # rest" and "first \<noteq> []" and "is_space (hd first)"
  shows "\<not> startswith content ''---''"
proof
  assume s: "startswith content ''---''"
  then have "startswith (hd (splitlines content)) ''---''"
    using startswith_first_line [of content] by simp
  then have "startswith first ''---''" using assms(1) by simp
  then have "hd first = CHR ''-''"
    using assms(2) by (cases first) (simp_all add: startswith_def)
  then show False using assms(3) by (simp add: is_space_def)
qed

lemma no_frontmatter_not_classified:
  assumes "parse_frontmatter c = Map.empty"
  shows "\<not> is_public_note \<lparr>name = n, read_file = Some c\<rparr>"
    and "\<not> has_now_tag \<lparr>name = n, read_file = Some c\<rparr>"
  using assms by (simp_all add: is_public_note_iff has_now_tag_iff)

section \<open>Facts about the whitelist\<close>

lemma fold_union_links:
  "fold (\<lambda>file acc. acc \<union> set (f file)) files A = A \<union> (\<Union>file\<in>set files. set (f file))"
  by (induction files arbitrary: A) auto

lemma collect_public_assets_set:
  "collect_public_assets notes_dir =
     sorted_list_of_set (\<Union>file\<in>set (find_public_notes notes_dir). set (extract_assets_from_file file))"
  by (simp add: collect_public_assets_def Let_def fold_union_links)

lemma find_public_notes_perm:
  assumes "mset walk' = mset walk"
  shows "set (find_public_notes (Some walk')) = set (find_public_notes (Some walk))"
proof -
  have "set walk' = set walk" using assms by (rule mset_eq_setD)
  then show ?thesis by (simp add: find_public_notes_def)
qed

section \<open>Facts about linking\<close>

lemma target_filename_dated:
  assumes "(prefix ''20'' (name post) \<or> prefix ''19'' (name post))
      \<and> 10 \<le> length (name post) \<and> name post ! 4 = CHR ''-'' \<and> name post ! 7 = CHR ''-''"
  shows "target_filename post = name post"
  using assms by (simp add: target_filename_def Let_def startswith_prefix)

lemma target_filename_undated:
  assumes "\<not> ((prefix ''20'' (name post) \<or> prefix ''19'' (name post))
      \<and> 10 \<le> length (name post) \<and> name post ! 4 = CHR ''-'' \<and> name post ! 7 = CHR ''-'')"
    and "read_file post = Some c"
  shows "target_filename post =
     (case parse_frontmatter c ''date'' of
        None \<Rightarrow> name post
      | Some d \<Rightarrow> if d \<noteq> [] then d @ ''_'' @ name post else name post)"
proof -
  have "\<not> ((startswith (name post) ''20'' \<or> startswith (name post) ''19'')
      \<and> 10 \<le> length (name post) \<and> name post ! 4 = CHR ''-'' \<and> name post ! 7 = CHR ''-'')"
    using assms(1) by (simp add: startswith_prefix)
  then show ?thesis
    unfolding target_filename_def Let_def
    by (simp only: if_not_P assms(2) option.case dict_get_def) (simp split: option.splits)
qed

lemma link_now_posts_member:
  "(post, target) \<in> set (link_now_posts notes_dir) \<Longrightarrow>
     has_now_tag post \<and> target = target_filename post"
  by (auto simp: link_now_posts_def find_now_notes_def split: option.splits)

section \<open>Asset linking (C1)\<close>

text \<open>
  C1 says that only a leading \<open>assets/\<close> is stripped from a whitelist path.  The code
  calls \<open>asset_path.replace("assets/", "")\<close>, which removes every occurrence.  The links
  \<open>assets/img/assets/a.png\<close> and \<open>../assets/b.png\<close> of two public notes are on the
  whitelist; the source and the target of the first are computed with \<open>img/a.png\<close> in
  place of \<open>img/assets/a.png\<close>, and in the second, which has no leading \<open>assets/\<close>, the
  inner one is removed.
\<close>

theorem asset_linking_strips_every_occurrence:
  "collect_public_assets (Some
      [\<lparr>name = ''icons.md'',
        read_file = Some ''---\<newline>public: true\<newline>---\<newline>[logo](assets/img/assets/a.png)''\<rparr>,
       \<lparr>name = ''trip.md'',
        read_file = Some ''---\<newline>public: true\<newline>---\<newline>[map](../assets/b.png)''\<rparr>])
     = [''../assets/b.png'', ''assets/img/assets/a.png'']
   \<and> link_public_assets (Some
      [\<lparr>name = ''icons.md'',
        read_file = Some ''---\<newline>public: true\<newline>---\<newline>[logo](assets/img/assets/a.png)''\<rparr>,
       \<lparr>name = ''trip.md'',
        read_file = Some ''---\<newline>public: true\<newline>---\<newline>[map](../assets/b.png)''\<rparr>])
      ''Notes/assets'' True ''docs/posts/assets''
     = [(Join ''Notes/assets'' ''../b.png'', Join ''docs/posts/assets'' ''../b.png''),
        (Join ''Notes/assets'' ''img/a.png'', Join ''docs/posts/assets'' ''img/a.png'')]
   \<and> prefix ''assets/'' ''assets/img/assets/a.png''
   \<and> drop (length ''assets/'') ''assets/img/assets/a.png'' = ''img/assets/a.png''
   \<and> ''img/a.png'' \<noteq> ''img/assets/a.png''
   \<and> \<not> prefix ''assets/'' ''../assets/b.png''
   \<and> ''../b.png'' \<noteq> ''../assets/b.png''"
proof -
  let ?dir = "Some
      [\<lparr>name = ''icons.md'',
        read_file = Some ''---\<newline>public: true\<newline>---\<newline>[logo](assets/img/assets/a.png)''\<rparr>,
       \<lparr>name = ''trip.md'',
        read_file = Some ''---\<newline>public: true\<newline>---\<newline>[map](../assets/b.png)''\<rparr>]"
  have 1: "collect_public_assets ?dir = [''../assets/b.png'', ''assets/img/assets/a.png'']"
    by code_simp
  have 2: "link_public_assets ?dir ''Notes/assets'' True ''docs/posts/assets''
     = [(Join ''Notes/assets'' ''../b.png'', Join ''docs/posts/assets'' ''../b.png''),
        (Join ''Notes/assets'' ''img/a.png'', Join ''docs/posts/assets'' ''img/a.png'')]"
    by code_simp
  have 3: "prefix ''assets/'' ''assets/img/assets/a.png''" by simp
  have 4: "drop (length ''assets/'') ''assets/img/assets/a.png'' = ''img/assets/a.png''" by simp
  have 5: "''img/a.png'' \<noteq> ''img/assets/a.png''" by simp
  have 6: "\<not> prefix ''assets/'' ''../assets/b.png''" by simp
  have 7: "''../b.png'' \<noteq> ''../assets/b.png''" by simp
  show ?thesis using 1 2 3 4 5 6 7 by (intro conjI)
qed

section \<open>Now-post filenames (C2)\<close>

text \<open>
  C2, as stated, fails in two places.  A \<open>date\<close> field that is present with an empty
  value leaves the filename unchanged, where the claim puts an underscore in front.  And
  the year test looks at the first two characters only, which must be \<open>19\<close> or
  \<open>20\<close>: a filename that begins with the four digits \<open>1850\<close> and has both hyphens
  gets the date in front.
\<close>

theorem now_post_empty_date_counterexample:
  "link_now_posts (Some
      [\<lparr>name = ''notes.md'', read_file = Some ''---\<newline>tags: now\<newline>date:\<newline>---\<newline>text''\<rparr>])
     = [(\<lparr>name = ''notes.md'', read_file = Some ''---\<newline>tags: now\<newline>date:\<newline>---\<newline>text''\<rparr>,
         ''notes.md'')]
   \<and> has_now_tag \<lparr>name = ''notes.md'', read_file = Some ''---\<newline>tags: now\<newline>date:\<newline>---\<newline>text''\<rparr>
   \<and> parse_frontmatter ''---\<newline>tags: now\<newline>date:\<newline>---\<newline>text'' ''date'' = Some []
   \<and> ''notes.md'' \<noteq> [] @ ''_'' @ ''notes.md''
   \<and> link_now_posts (Some
      [\<lparr>name = ''1850-03-01-diary.md'',
        read_file = Some ''---\<newline>tags: now\<newline>date: 2024-05-05\<newline>---\<newline>text''\<rparr>])
     = [(\<lparr>name = ''1850-03-01-diary.md'',
          read_file = Some ''---\<newline>tags: now\<newline>date: 2024-05-05\<newline>---\<newline>text''\<rparr>,
         ''2024-05-05_1850-03-01-diary.md'')]
   \<and> take 4 ''1850-03-01-diary.md'' = ''1850''
   \<and> ''1850-03-01-diary.md'' ! 4 = CHR ''-'' \<and> ''1850-03-01-diary.md'' ! 7 = CHR ''-''
   \<and> 10 \<le> length ''1850-03-01-diary.md''
   \<and> ''2024-05-05_1850-03-01-diary.md'' \<noteq> ''1850-03-01-diary.md''"
proof -
  let ?p = "\<lparr>name = ''notes.md'', read_file = Some ''---\<newline>tags: now\<newline>date:\<newline>---\<newline>text''\<rparr>"
  let ?q = "\<lparr>name = ''1850-03-01-diary.md'',
        read_file = Some ''---\<newline>tags: now\<newline>date: 2024-05-05\<newline>---\<newline>text''\<rparr>"
  have 1: "link_now_posts (Some [?p]) = [(?p, ''notes.md'')]" by code_simp
  have 2: "has_now_tag ?p" by code_simp
  have 3: "parse_frontmatter ''---\<newline>tags: now\<newline>date:\<newline>---\<newline>text'' ''date'' = Some []"
    by code_simp
  have 4: "''notes.md'' \<noteq> [] @ ''_'' @ ''notes.md''" by simp
  have 5: "link_now_posts (Some [?q]) = [(?q, ''2024-05-05_1850-03-01-diary.md'')]" by code_simp
  have 6: "take 4 ''1850-03-01-diary.md'' = ''1850''" by code_simp
  have 7: "''1850-03-01-diary.md'' ! 4 = CHR ''-'' \<and> ''1850-03-01-diary.md'' ! 7 = CHR ''-''"
    by code_simp
  have 8: "10 \<le> length ''1850-03-01-diary.md''" by simp
  have 9: "''2024-05-05_1850-03-01-diary.md'' \<noteq> ''1850-03-01-diary.md''" by simp
  show ?thesis using 1 2 3 4 5 6 7 8 9 by (intro conjI) (elim conjE, assumption)+
qed

text \<open>
  C2, amended.  \<open>link_now_posts\<close> links exactly the notes with the now tag.  When the
  filename begins with \<open>19\<close> or \<open>20\<close>, is at least 10 characters long and has \<open>-\<close> at
  the positions 4 and 7, the link has the filename unchanged.  Otherwise the link is the
  date, an underscore and the filename when the frontmatter has a \<open>date\<close> with a value
  that is not empty, and the filename unchanged when \<open>date\<close> is absent or empty.
  \<open>reflections.md\<close> with the date \<open>2024-03-01\<close> becomes \<open>2024-03-01_reflections.md\<close>;
  \<open>2024-03-01-reflections.md\<close> stays.
\<close>

theorem now_post_target_filename:
  "((post, target) \<in> set (link_now_posts notes_dir) \<longrightarrow>
      has_now_tag post
      \<and> ((prefix ''20'' (name post) \<or> prefix ''19'' (name post))
           \<and> 10 \<le> length (name post)
           \<and> name post ! 4 = CHR ''-'' \<and> name post ! 7 = CHR ''-''
         \<longrightarrow> target = name post)
      \<and> (\<not> ((prefix ''20'' (name post) \<or> prefix ''19'' (name post))
              \<and> 10 \<le> length (name post)
              \<and> name post ! 4 = CHR ''-'' \<and> name post ! 7 = CHR ''-'')
         \<longrightarrow> (\<exists>c. read_file post = Some c
               \<and> target =
                  (case parse_frontmatter c ''date'' of
                     None \<Rightarrow> name post
                   | Some d \<Rightarrow> if d \<noteq> [] then d @ ''_'' @ name post else name post))))
   \<and> map fst (link_now_posts (Some walk)) = filter has_now_tag walk
   \<and> link_now_posts (Some
        [\<lparr>name = ''reflections.md'',
          read_file = Some ''---\<newline>tags: now\<newline>date: 2024-03-01\<newline>---\<newline>text''\<rparr>])
       = [(\<lparr>name = ''reflections.md'',
            read_file = Some ''---\<newline>tags: now\<newline>date: 2024-03-01\<newline>---\<newline>text''\<rparr>,
           ''2024-03-01_reflections.md'')]
   \<and> link_now_posts (Some
        [\<lparr>name = ''2024-03-01-reflections.md'',
          read_file = Some ''---\<newline>tags: now\<newline>date: 2024-03-01\<newline>---\<newline>text''\<rparr>])
       = [(\<lparr>name = ''2024-03-01-reflections.md'',
            read_file = Some ''---\<newline>tags: now\<newline>date: 2024-03-01\<newline>---\<newline>text''\<rparr>,
           ''2024-03-01-reflections.md'')]"
proof (intro conjI impI)
  assume m: "(post, target) \<in> set (link_now_posts notes_dir)"
  then have t: "has_now_tag post \<and> target = target_filename post"
    by (rule link_now_posts_member)
  then show "has_now_tag post" by simp
  show "target = name post"
    if "(prefix ''20'' (name post) \<or> prefix ''19'' (name post))
           \<and> 10 \<le> length (name post)
           \<and> name post ! 4 = CHR ''-'' \<and> name post ! 7 = CHR ''-''"
    using t target_filename_dated [OF that] by simp
  show "\<exists>c. read_file post = Some c
               \<and> target =
                  (case parse_frontmatter c ''date'' of
                     None \<Rightarrow> name post
                   | Some d \<Rightarrow> if d \<noteq> [] then d @ ''_'' @ name post else name post)"
    if n: "\<not> ((prefix ''20'' (name post) \<or> prefix ''19'' (name post))
              \<and> 10 \<le> length (name post)
              \<and> name post ! 4 = CHR ''-'' \<and> name post ! 7 = CHR ''-'')"
  proof -
    obtain c where c: "read_file post = Some c"
      using t has_now_tag_iff [of post] by blast
    show ?thesis
      using c t target_filename_undated [OF n c] by simp
  qed
next
  show "map fst (link_now_posts (Some walk)) = filter has_now_tag walk"
    by (simp add: link_now_posts_def find_now_notes_def comp_def)
next
  show "link_now_posts (Some
        [\<lparr>name = ''reflections.md'',
          read_file = Some ''---\<newline>tags: now\<newline>date: 2024-03-01\<newline>---\<newline>text''\<rparr>])
       = [(\<lparr>name = ''reflections.md'',
            read_file = Some ''---\<newline>tags: now\<newline>date: 2024-03-01\<newline>---\<newline>text''\<rparr>,
           ''2024-03-01_reflections.md'')]"
    by code_simp
next
  show "link_now_posts (Some
        [\<lparr>name = ''2024-03-01-reflections.md'',
          read_file = Some ''---\<newline>tags: now\<newline>date: 2024-03-01\<newline>---\<newline>text''\<rparr>])
       = [(\<lparr>name = ''2024-03-01-reflections.md'',
            read_file = Some ''---\<newline>tags: now\<newline>date: 2024-03-01\<newline>---\<newline>text''\<rparr>,
           ''2024-03-01-reflections.md'')]"
    by code_simp
qed


theorem now_post_target_filename_witness:
  "(\<lparr>name = ''reflections.md'',
      read_file = Some ''---\<newline>tags: now\<newline>date: 2024-03-01\<newline>---\<newline>text''\<rparr>,
    ''2024-03-01_reflections.md'')
     \<in> set (link_now_posts (Some
          [\<lparr>name = ''reflections.md'',
            read_file = Some ''---\<newline>tags: now\<newline>date: 2024-03-01\<newline>---\<newline>text''\<rparr>]))
   \<and> \<not> ((prefix ''20'' ''reflections.md'' \<or> prefix ''19'' ''reflections.md'')
          \<and> 10 \<le> length ''reflections.md''
          \<and> ''reflections.md'' ! 4 = CHR ''-'' \<and> ''reflections.md'' ! 7 = CHR ''-'')
   \<and> has_now_tag \<lparr>name = ''reflections.md'',
         read_file = Some ''---\<newline>tags: now\<newline>date: 2024-03-01\<newline>---\<newline>text''\<rparr>
   \<and> (\<exists>c. Some ''---\<newline>tags: now\<newline>date: 2024-03-01\<newline>---\<newline>text'' = Some c
          \<and> ''2024-03-01_reflections.md'' =
              (case parse_frontmatter c ''date'' of
                 None \<Rightarrow> ''reflections.md''
               | Some d \<Rightarrow> if d \<noteq> [] then d @ ''_'' @ ''reflections.md'' else ''reflections.md''))"
proof -
  let ?p = "\<lparr>name = ''reflections.md'',
      read_file = Some ''---\<newline>tags: now\<newline>date: 2024-03-01\<newline>---\<newline>text''\<rparr>"
  have m: "(?p, ''2024-03-01_reflections.md'') \<in> set (link_now_posts (Some [?p]))"
    by code_simp
  have n: "\<not> ((prefix ''20'' (name ?p) \<or> prefix ''19'' (name ?p))
          \<and> 10 \<le> length (name ?p)
          \<and> name ?p ! 4 = CHR ''-'' \<and> name ?p ! 7 = CHR ''-'')"
    by simp
  note r = mp [OF now_post_target_filename
      [of ?p "''2024-03-01_reflections.md''" "Some [?p]", THEN conjunct1] m]
  have h: "has_now_tag ?p" by (rule r [THEN conjunct1])
  have e: "\<exists>c. read_file ?p = Some c
          \<and> ''2024-03-01_reflections.md'' =
              (case parse_frontmatter c ''date'' of
                 None \<Rightarrow> name ?p
               | Some d \<Rightarrow> if d \<noteq> [] then d @ ''_'' @ name ?p else name ?p)"
    by (rule mp [OF r [THEN conjunct2, THEN conjunct2] n])
  have n': "\<not> ((prefix ''20'' ''reflections.md'' \<or> prefix ''19'' ''reflections.md'')
          \<and> 10 \<le> length ''reflections.md''
          \<and> ''reflections.md'' ! 4 = CHR ''-'' \<and> ''reflections.md'' ! 7 = CHR ''-'')"
    using n unfolding md_file.select_convs .
  have e': "\<exists>c. Some ''---\<newline>tags: now\<newline>date: 2024-03-01\<newline>---\<newline>text'' = Some c
          \<and> ''2024-03-01_reflections.md'' =
              (case parse_frontmatter c ''date'' of
                 None \<Rightarrow> ''reflections.md''
               | Some d \<Rightarrow> if d \<noteq> [] then d @ ''_'' @ ''reflections.md'' else ''reflections.md'')"
    using e unfolding md_file.select_convs .
  show ?thesis using m n' h e' by (intro conjI)
qed

section \<open>Whitelist aggregation (C3)\<close>

text \<open>
  C3: the whitelist is sorted in the lexicographic order of strings and has no duplicates;
  its elements are the asset links of the public notes; and it does not depend on the order
  of the walk: two walks that are permutations of each other give the same list.  Two
  public notes with links to \<open>assets/b.png\<close> and, twice, to \<open>assets/a.png\<close> give exactly
  \<open>assets/a.png\<close>, \<open>assets/b.png\<close>; the links of a note that is not public stay out.
\<close>

theorem collect_public_assets_spec:
  "sorted (collect_public_assets notes_dir)
   \<and> distinct (collect_public_assets notes_dir)
   \<and> set (collect_public_assets notes_dir) =
       (\<Union>file\<in>set (find_public_notes notes_dir). set (extract_assets_from_file file))
   \<and> (mset walk' = mset walk \<longrightarrow>
        collect_public_assets (Some walk') = collect_public_assets (Some walk))
   \<and> collect_public_assets (Some
        [\<lparr>name = ''two.md'', read_file = Some ''---\<newline>public: true\<newline>---\<newline>[b](assets/b.png)''\<rparr>,
         \<lparr>name = ''private.md'', read_file = Some ''---\<newline>public: false\<newline>---\<newline>[c](assets/c.png)''\<rparr>,
         \<lparr>name = ''one.md'', read_file =
            Some ''---\<newline>public: true\<newline>---\<newline>[a](assets/a.png)\<newline>again [a](assets/a.png)''\<rparr>])
       = [''assets/a.png'', ''assets/b.png'']"
proof (intro conjI impI)
  let ?S = "\<Union>file\<in>set (find_public_notes notes_dir). set (extract_assets_from_file file)"
  have fin: "finite ?S" by simp
  show "sorted (collect_public_assets notes_dir)"
    unfolding collect_public_assets_set by (rule sorted_sorted_list_of_set)
  show "distinct (collect_public_assets notes_dir)"
    unfolding collect_public_assets_set by (rule distinct_sorted_list_of_set)
  show "set (collect_public_assets notes_dir) = ?S"
    unfolding collect_public_assets_set using fin by (rule set_sorted_list_of_set)
next
  assume "mset walk' = mset walk"
  then have "set (find_public_notes (Some walk')) = set (find_public_notes (Some walk))"
    by (rule find_public_notes_perm)
  then show "collect_public_assets (Some walk') = collect_public_assets (Some walk)"
    unfolding collect_public_assets_set by simp
next
  show "collect_public_assets (Some
        [\<lparr>name = ''two.md'', read_file = Some ''---\<newline>public: true\<newline>---\<newline>[b](assets/b.png)''\<rparr>,
         \<lparr>name = ''private.md'', read_file = Some ''---\<newline>public: false\<newline>---\<newline>[c](assets/c.png)''\<rparr>,
         \<lparr>name = ''one.md'', read_file =
            Some ''---\<newline>public: true\<newline>---\<newline>[a](assets/a.png)\<newline>again [a](assets/a.png)''\<rparr>])
       = [''assets/a.png'', ''assets/b.png'']"
    by code_simp
qed

theorem collect_public_assets_spec_witness:
  "mset [\<lparr>name = ''one.md'', read_file = Some ''---\<newline>public: true\<newline>---\<newline>[a](assets/a.png)''\<rparr>,
         \<lparr>name = ''two.md'', read_file = Some ''---\<newline>public: true\<newline>---\<newline>[b](assets/b.png)''\<rparr>]
     = mset [\<lparr>name = ''two.md'', read_file = Some ''---\<newline>public: true\<newline>---\<newline>[b](assets/b.png)''\<rparr>,
         \<lparr>name = ''one.md'', read_file = Some ''---\<newline>public: true\<newline>---\<newline>[a](assets/a.png)''\<rparr>]
   \<and> collect_public_assets (Some
        [\<lparr>name = ''one.md'', read_file = Some ''---\<newline>public: true\<newline>---\<newline>[a](assets/a.png)''\<rparr>,
         \<lparr>name = ''two.md'', read_file = Some ''---\<newline>public: true\<newline>---\<newline>[b](assets/b.png)''\<rparr>])
     = collect_public_assets (Some
        [\<lparr>name = ''two.md'', read_file = Some ''---\<newline>public: true\<newline>---\<newline>[b](assets/b.png)''\<rparr>,
         \<lparr>name = ''one.md'', read_file = Some ''---\<newline>public: true\<newline>---\<newline>[a](assets/a.png)''\<rparr>])
   \<and> collect_public_assets (Some
        [\<lparr>name = ''two.md'', read_file = Some ''---\<newline>public: true\<newline>---\<newline>[b](assets/b.png)''\<rparr>,
         \<lparr>name = ''one.md'', read_file = Some ''---\<newline>public: true\<newline>---\<newline>[a](assets/a.png)''\<rparr>])
     = [''assets/a.png'', ''assets/b.png'']"
proof -
  let ?one = "\<lparr>name = ''one.md'', read_file = Some ''---\<newline>public: true\<newline>---\<newline>[a](assets/a.png)''\<rparr>"
  let ?two = "\<lparr>name = ''two.md'', read_file = Some ''---\<newline>public: true\<newline>---\<newline>[b](assets/b.png)''\<rparr>"
  have p: "mset [?one, ?two] = mset [?two, ?one]" by (simp add: add.commute)
  have e: "collect_public_assets (Some [?one, ?two]) = collect_public_assets (Some [?two, ?one])"
    by (rule mp [OF collect_public_assets_spec [of _ "[?one, ?two]" "[?two, ?one]",
          THEN conjunct2, THEN conjunct2, THEN conjunct2, THEN conjunct1] p])
  have v: "collect_public_assets (Some [?two, ?one]) = [''assets/a.png'', ''assets/b.png'']"
    by code_simp
  show ?thesis using p e v by (intro conjI)
qed

section \<open>Forward-link extraction (C4)\<close>

text \<open>
  C4: the links of a file are, line by line over its body lines and in the order of the
  matches within a line, the captured targets of \<open>[label](target)\<close> that contain the
  substring \<open>assets\<close>; duplicates stay.  One attempt of the pattern succeeds exactly on
  \<open>[\<close>, a label without \<open>]\<close>, \<open>](\<close>, a target without \<open>)\<close>, and \<open>)\<close>; the scan takes
  the leftmost match, goes on behind it, and otherwise moves one character on.  Every
  target found comes from such an occurrence in the line, and a line with an occurrence
  gives a match.  The text \<open>[img](assets/a.png) and [site](https://example.com)\<close> gives
  exactly \<open>assets/a.png\<close>; the substring test is case-sensitive.
\<close>

theorem extract_assets_from_file_spec:
  "extract_assets_from_file file =
     (case read_file file of
        None \<Rightarrow> []
      | Some c \<Rightarrow> concat (map (\<lambda>line. filter (sublist ''assets'') (findall line))
                    (content_lines (splitlines c))))
   \<and> (match_link s = Some (t, rest) \<longleftrightarrow>
        (\<exists>label. s = ''['' @ label @ '']('' @ t @ '')'' @ rest
           \<and> CHR '']'' \<notin> set label \<and> CHR '')'' \<notin> set t))
   \<and> findall [] = []
   \<and> (match_link s = Some (t, rest) \<longrightarrow> findall s = t # findall rest)
   \<and> (match_link s = None \<longrightarrow> findall s = findall (tl s))
   \<and> (t \<in> set (findall line) \<longrightarrow>
        (\<exists>pre label post. line = pre @ ''['' @ label @ '']('' @ t @ '')'' @ post
           \<and> CHR '']'' \<notin> set label \<and> CHR '')'' \<notin> set t))
   \<and> (line = pre @ ''['' @ label @ '']('' @ t @ '')'' @ post
        \<and> CHR '']'' \<notin> set label \<and> CHR '')'' \<notin> set t \<longrightarrow> findall line \<noteq> [])
   \<and> extract_assets_from_file
        \<lparr>name = n, read_file = Some ''[img](assets/a.png) and [site](https://example.com)''\<rparr>
       = [''assets/a.png'']
   \<and> extract_assets_from_file
        \<lparr>name = n, read_file =
           Some ''[b](assets/b.png) [up](Assets/c.png)\<newline>[a](assets/a.png)[b](assets/b.png)''\<rparr>
       = [''assets/b.png'', ''assets/a.png'', ''assets/b.png'']"
proof (intro conjI impI)
  show "extract_assets_from_file file =
     (case read_file file of
        None \<Rightarrow> []
      | Some c \<Rightarrow> concat (map (\<lambda>line. filter (sublist ''assets'') (findall line))
                    (content_lines (splitlines c))))"
    by (rule extract_assets_from_file_concat)
  show "match_link s = Some (t, rest) \<longleftrightarrow>
        (\<exists>label. s = ''['' @ label @ '']('' @ t @ '')'' @ rest
           \<and> CHR '']'' \<notin> set label \<and> CHR '')'' \<notin> set t)"
    by (rule match_link_iff)
  show "findall [] = []" by (rule findall_Nil)
  show "findall s = t # findall rest" if "match_link s = Some (t, rest)"
    using that by (rule findall_match)
  show "findall s = findall (tl s)" if "match_link s = None"
    using that by (rule findall_no_match)
  show "\<exists>pre label post. line = pre @ ''['' @ label @ '']('' @ t @ '')'' @ post
           \<and> CHR '']'' \<notin> set label \<and> CHR '')'' \<notin> set t" if "t \<in> set (findall line)"
    using that by (rule findall_sound)
  show "findall line \<noteq> []" if "line = pre @ ''['' @ label @ '']('' @ t @ '')'' @ post
        \<and> CHR '']'' \<notin> set label \<and> CHR '')'' \<notin> set t"
    using that findall_complete [of line pre label t post] by simp
  show "extract_assets_from_file
        \<lparr>name = n, read_file = Some ''[img](assets/a.png) and [site](https://example.com)''\<rparr>
       = [''assets/a.png'']"
    by code_simp
  show "extract_assets_from_file
        \<lparr>name = n, read_file =
           Some ''[b](assets/b.png) [up](Assets/c.png)\<newline>[a](assets/a.png)[b](assets/b.png)''\<rparr>
       = [''assets/b.png'', ''assets/a.png'', ''assets/b.png'']"
    by code_simp
qed

theorem extract_assets_from_file_spec_witness:
  "''assets/a.png'' \<in> set (findall ''see [img](assets/a.png) here'')
   \<and> (\<exists>pre label post.
         ''see [img](assets/a.png) here'' = pre @ ''['' @ label @ '']('' @ ''assets/a.png'' @ '')'' @ post
         \<and> CHR '']'' \<notin> set label \<and> CHR '')'' \<notin> set ''assets/a.png'')
   \<and> match_link ''[img](assets/a.png) here'' = Some (''assets/a.png'', '' here'')
   \<and> findall ''[img](assets/a.png) here'' = ''assets/a.png'' # findall '' here''"
proof -
  note spec = extract_assets_from_file_spec
    [of _ "''[img](assets/a.png) here''" "''assets/a.png''" "'' here''"
        "''see [img](assets/a.png) here''"]
  have m: "''assets/a.png'' \<in> set (findall ''see [img](assets/a.png) here'')"
    by code_simp
  have ml: "match_link ''[img](assets/a.png) here'' = Some (''assets/a.png'', '' here'')"
    by code_simp
  have "\<exists>pre label post.
         ''see [img](assets/a.png) here'' = pre @ ''['' @ label @ '']('' @ ''assets/a.png'' @ '')'' @ post
         \<and> CHR '']'' \<notin> set label \<and> CHR '')'' \<notin> set ''assets/a.png''"
    by (rule mp [OF spec [THEN conjunct2, THEN conjunct2, THEN conjunct2, THEN conjunct2,
          THEN conjunct2, THEN conjunct1] m])
  moreover have "findall ''[img](assets/a.png) here'' = ''assets/a.png'' # findall '' here''"
    by (rule mp [OF spec [THEN conjunct2, THEN conjunct2, THEN conjunct2, THEN conjunct1] ml])
  ultimately show ?thesis using m ml by (intro conjI)
qed

section \<open>The body of a text without frontmatter (C5)\<close>

text \<open>
  C5 says that a text with no frontmatter is body as a whole.  The code counts separator
  lines anywhere in the text and never looks at how the text begins: on a text that does
  not begin with \<open>---\<close> (so that \<open>parse_frontmatter\<close> finds no frontmatter) and that
  has two \<open>---\<close> lines further down, the body starts behind the second of them, and
  the links before it are lost.
\<close>

theorem text_without_frontmatter_loses_body:
  "\<not> startswith ''[a](assets/a.png)\<newline>---\<newline>[b](assets/b.png)\<newline>---\<newline>[c](assets/c.png)'' ''---''
   \<and> parse_frontmatter ''[a](assets/a.png)\<newline>---\<newline>[b](assets/b.png)\<newline>---\<newline>[c](assets/c.png)''
       = Map.empty
   \<and> extract_assets_from_file
        \<lparr>name = ''n.md'', read_file =
           Some ''[a](assets/a.png)\<newline>---\<newline>[b](assets/b.png)\<newline>---\<newline>[c](assets/c.png)''\<rparr>
       = [''assets/c.png'']
   \<and> concat (map (\<lambda>line. filter (sublist ''assets'') (findall line))
        (splitlines ''[a](assets/a.png)\<newline>---\<newline>[b](assets/b.png)\<newline>---\<newline>[c](assets/c.png)''))
       = [''assets/a.png'', ''assets/b.png'', ''assets/c.png'']"
proof -
  let ?T = "''[a](assets/a.png)\<newline>---\<newline>[b](assets/b.png)\<newline>---\<newline>[c](assets/c.png)''"
  have 1: "\<not> startswith ?T ''---''" by code_simp
  then have 2: "parse_frontmatter ?T = Map.empty" by (rule parse_frontmatter_no_opening)
  have 3: "extract_assets_from_file \<lparr>name = ''n.md'', read_file = Some ?T\<rparr> = [''assets/c.png'']"
    by code_simp
  have 4: "concat (map (\<lambda>line. filter (sublist ''assets'') (findall line)) (splitlines ?T))
       = [''assets/a.png'', ''assets/b.png'', ''assets/c.png'']"
    by code_simp
  show ?thesis using 1 2 3 4 by (intro conjI)
qed

section \<open>The opening marker (C6)\<close>

text \<open>
  C6, as stated, fails: a first line that is not exactly \<open>---\<close> but begins with it, such
  as \<open>---extra\<close>, opens a frontmatter block, and the mapping is not empty.
\<close>

theorem first_line_not_exact_counterexample:
  "hd (splitlines ''---extra\<newline>public: true\<newline>---'') = ''---extra''
   \<and> hd (splitlines ''---extra\<newline>public: true\<newline>---'') \<noteq> ''---''
   \<and> parse_frontmatter ''---extra\<newline>public: true\<newline>---'' ''public'' = Some ''true''
   \<and> parse_frontmatter ''---extra\<newline>public: true\<newline>---'' \<noteq> Map.empty"
proof -
  have 1: "hd (splitlines ''---extra\<newline>public: true\<newline>---'') = ''---extra''"
    by code_simp
  have 2: "parse_frontmatter ''---extra\<newline>public: true\<newline>---'' ''public'' = Some ''true''"
    by code_simp
  from 2 have 3: "parse_frontmatter ''---extra\<newline>public: true\<newline>---'' \<noteq> Map.empty"
    by (metis option.distinct(1))
  show ?thesis using 1 2 3 by simp
qed

text \<open>
  C6, amended: \<open>parse_frontmatter\<close> returns the empty mapping for every text that does not
  begin with the three characters \<open>---\<close>, which is every text that has no first line or
  whose first line does not begin with \<open>---\<close>.
\<close>

theorem parse_frontmatter_no_opening_marker:
  "(\<not> startswith content ''---'' \<longrightarrow> parse_frontmatter content = Map.empty)
   \<and> (splitlines content = [] \<or> \<not> startswith (hd (splitlines content)) ''---''
        \<longrightarrow> parse_frontmatter content = Map.empty)"
  using startswith_first_line [of content] parse_frontmatter_no_opening [of content] by blast

theorem parse_frontmatter_no_opening_marker_witness:
  "\<not> startswith ''title\<newline>public: true\<newline>---'' ''---''
   \<and> \<not> startswith (hd (splitlines ''title\<newline>public: true\<newline>---'')) ''---''
   \<and> parse_frontmatter ''title\<newline>public: true\<newline>---'' = Map.empty"
proof -
  have "\<not> startswith ''title\<newline>public: true\<newline>---'' ''---''"
    by code_simp
  moreover have "\<not> startswith (hd (splitlines ''title\<newline>public: true\<newline>---'')) ''---''"
    by code_simp
  ultimately show ?thesis
    using parse_frontmatter_no_opening_marker [of "''title\<newline>public: true\<newline>---''"] by blast
qed

section \<open>The reference algorithm of the parser (C7)\<close>

text \<open>
  C7: \<open>parse_frontmatter\<close> follows the reference algorithm.  A text that does not begin
  with \<open>---\<close> gives the empty mapping.  When no line after the first has the trimmed
  content \<open>---\<close>, the result is the empty mapping.  Otherwise, with \<open>between\<close> the lines
  strictly between the first line and the first such closing line, the mapping sends a key
  \<open>k\<close> to a value \<open>v\<close> exactly when some line of \<open>between\<close> is \<open>a:b\<close> with no colon in
  \<open>a\<close> (the split at the first colon), \<open>k\<close> is \<open>a\<close> trimmed and \<open>v\<close> is \<open>b\<close> trimmed,
  and no later line of \<open>between\<close> with a colon has the key \<open>k\<close> (a later duplicate
  overwrites).  Lines without a colon store nothing.
\<close>

theorem parse_frontmatter_reference:
  "(\<not> startswith content ''---'' \<longrightarrow> parse_frontmatter content = Map.empty)
   \<and> ((\<forall>line\<in>set (drop 1 (splitlines content)). strip line \<noteq> ''---'')
        \<longrightarrow> parse_frontmatter content = Map.empty)
   \<and> (startswith content ''---''
        \<and> splitlines content = first # between @ closing # rest
        \<and> (\<forall>line\<in>set between. strip line \<noteq> ''---'')
        \<and> strip closing = ''---''
      \<longrightarrow> (\<forall>k v. parse_frontmatter content k = Some v \<longleftrightarrow>
            (\<exists>pre a b post.
               between = pre @ (a @ '':'' @ b) # post \<and> CHR '':'' \<notin> set a
               \<and> strip a = k \<and> strip b = v
               \<and> (\<forall>l\<in>set post. \<forall>a' b'.
                     l = a' @ '':'' @ b' \<and> CHR '':'' \<notin> set a' \<longrightarrow> strip a' \<noteq> k))))"
proof (intro conjI impI allI)
  assume "\<not> startswith content ''---''"
  then show "parse_frontmatter content = Map.empty"
    by (rule parse_frontmatter_no_opening)
next
  assume "\<forall>line\<in>set (drop 1 (splitlines content)). strip line \<noteq> ''---''"
  then show "parse_frontmatter content = Map.empty"
    by (rule parse_frontmatter_no_closing)
next
  fix k v
  assume h: "startswith content ''---''
        \<and> splitlines content = first # between @ closing # rest
        \<and> (\<forall>line\<in>set between. strip line \<noteq> ''---'')
        \<and> strip closing = ''---''"
  have "parse_frontmatter content = fold (\<lambda>line fm. store_line fm line) between Map.empty"
    using h by (intro parse_frontmatter_block [of content first between closing rest]) simp_all
  then show "parse_frontmatter content k = Some v \<longleftrightarrow>
            (\<exists>pre a b post.
               between = pre @ (a @ '':'' @ b) # post \<and> CHR '':'' \<notin> set a
               \<and> strip a = k \<and> strip b = v
               \<and> (\<forall>l\<in>set post. \<forall>a' b'.
                     l = a' @ '':'' @ b' \<and> CHR '':'' \<notin> set a' \<longrightarrow> strip a' \<noteq> k))"
    by (simp only: fold_store_line_Some)
qed

theorem parse_frontmatter_reference_witness:
  "startswith ''---\<newline>public: true\<newline>tags : now\<newline>no colon\<newline>public: a:b \<newline>---\<newline>x: y'' ''---''
   \<and> splitlines ''---\<newline>public: true\<newline>tags : now\<newline>no colon\<newline>public: a:b \<newline>---\<newline>x: y''
       = ''---'' # [''public: true'', ''tags : now'', ''no colon'', ''public: a:b ''] @ ''---'' # [''x: y'']
   \<and> \<not> (\<exists>line\<in>set [''public: true'', ''tags : now'', ''no colon'', ''public: a:b '']. strip line = ''---'')
   \<and> strip ''---'' = ''---''
   \<and> parse_frontmatter ''---\<newline>public: true\<newline>tags : now\<newline>no colon\<newline>public: a:b \<newline>---\<newline>x: y'' ''public''
       = Some ''a:b''
   \<and> (\<exists>pre a b post.
         [''public: true'', ''tags : now'', ''no colon'', ''public: a:b ''] = pre @ (a @ '':'' @ b) # post
         \<and> CHR '':'' \<notin> set a \<and> strip a = ''public'' \<and> strip b = ''a:b''
         \<and> \<not> (\<exists>l\<in>set post. \<exists>a' b'. l = a' @ '':'' @ b' \<and> CHR '':'' \<notin> set a' \<and> strip a' = ''public''))"
proof -
  let ?c = "''---\<newline>public: true\<newline>tags : now\<newline>no colon\<newline>public: a:b \<newline>---\<newline>x: y''"
  let ?between = "[''public: true'', ''tags : now'', ''no colon'', ''public: a:b '']"
  have h1: "startswith ?c ''---''" by code_simp
  have h2: "splitlines ?c = ''---'' # ?between @ ''---'' # [''x: y'']" by code_simp
  have h3: "\<forall>line\<in>set ?between. strip line \<noteq> ''---''" by code_simp
  have h4: "strip ''---'' = ''---''" by code_simp
  have v: "parse_frontmatter ?c ''public'' = Some ''a:b''" by code_simp
  have "\<forall>k v. parse_frontmatter ?c k = Some v \<longleftrightarrow>
            (\<exists>pre a b post.
               ?between = pre @ (a @ '':'' @ b) # post \<and> CHR '':'' \<notin> set a
               \<and> strip a = k \<and> strip b = v
               \<and> (\<forall>l\<in>set post. \<forall>a' b'.
                     l = a' @ '':'' @ b' \<and> CHR '':'' \<notin> set a' \<longrightarrow> strip a' \<noteq> k))"
    by (rule mp [OF conjunct2 [OF conjunct2 [OF parse_frontmatter_reference
            [of ?c "''---''" ?between "''---''" "[''x: y'']"]]]])
       (intro conjI h1 h2 h3 h4)
  then have "parse_frontmatter ?c ''public'' = Some ''a:b'' \<longleftrightarrow>
            (\<exists>pre a b post.
               ?between = pre @ (a @ '':'' @ b) # post \<and> CHR '':'' \<notin> set a
               \<and> strip a = ''public'' \<and> strip b = ''a:b''
               \<and> (\<forall>l\<in>set post. \<forall>a' b'.
                     l = a' @ '':'' @ b' \<and> CHR '':'' \<notin> set a' \<longrightarrow> strip a' \<noteq> ''public''))"
    by (elim allE)
  then have "\<exists>pre a b post.
               ?between = pre @ (a @ '':'' @ b) # post \<and> CHR '':'' \<notin> set a
               \<and> strip a = ''public'' \<and> strip b = ''a:b''
               \<and> (\<forall>l\<in>set post. \<forall>a' b'.
                     l = a' @ '':'' @ b' \<and> CHR '':'' \<notin> set a' \<longrightarrow> strip a' \<noteq> ''public'')"
    using v by (rule iffD1)
  then have "\<exists>pre a b post.
         ?between = pre @ (a @ '':'' @ b) # post
         \<and> CHR '':'' \<notin> set a \<and> strip a = ''public'' \<and> strip b = ''a:b''
         \<and> \<not> (\<exists>l\<in>set post. \<exists>a' b'. l = a' @ '':'' @ b' \<and> CHR '':'' \<notin> set a' \<and> strip a' = ''public'')"
    by (elim exE conjE, intro exI conjI) (assumption+, blast)
  moreover have "\<not> (\<exists>line\<in>set ?between. strip line = ''---'')" using h3 by blast
  ultimately show ?thesis using h1 h2 h4 v by (intro conjI)
qed

section \<open>Classification (C8, C9)\<close>

text \<open>
  C8: \<open>is_public_note\<close> holds exactly when the file can be read and its parsed
  frontmatter has a key \<open>public\<close> whose value, lower-cased, is the string \<open>true\<close>.  The
  value \<open>TRUE\<close> gives true; the values \<open>1\<close> and \<open>yes\<close> and an absent key give false.
\<close>

theorem is_public_note_spec:
  "(is_public_note file \<longleftrightarrow>
      (\<exists>c v. read_file file = Some c \<and> parse_frontmatter c ''public'' = Some v
             \<and> lower v = ''true''))
   \<and> is_public_note \<lparr>name = n, read_file = Some ''---\<newline>public: TRUE\<newline>---\<newline>text''\<rparr>
   \<and> \<not> is_public_note \<lparr>name = n, read_file = Some ''---\<newline>public: 1\<newline>---\<newline>text''\<rparr>
   \<and> \<not> is_public_note \<lparr>name = n, read_file = Some ''---\<newline>public: yes\<newline>---\<newline>text''\<rparr>
   \<and> \<not> is_public_note \<lparr>name = n, read_file = Some ''---\<newline>title: x\<newline>---\<newline>text''\<rparr>"
  by (intro conjI, rule is_public_note_iff) code_simp+

theorem is_public_note_spec_witness:
  "is_public_note \<lparr>name = ''a.md'', read_file = Some ''---\<newline>public: True\<newline>---''\<rparr>
   \<and> (\<exists>c v. Some ''---\<newline>public: True\<newline>---'' = Some c
            \<and> parse_frontmatter c ''public'' = Some v \<and> lower v = ''true'')"
proof -
  have "is_public_note \<lparr>name = ''a.md'', read_file = Some ''---\<newline>public: True\<newline>---''\<rparr>"
    by code_simp
  then show ?thesis
    using is_public_note_spec
      [of "\<lparr>name = ''a.md'', read_file = Some ''---\<newline>public: True\<newline>---''\<rparr>"]
    by simp
qed

text \<open>
  C9: \<open>has_now_tag\<close> holds exactly when the file can be read and the lower-cased value at
  the frontmatter key \<open>tags\<close> has \<open>now\<close> as a substring, at any place.  The values
  \<open>now, writing\<close> and \<open>unknown\<close> give true; the value \<open>later\<close> and an absent key give
  false.  The test is on the lower-cased value: \<open>NOW\<close> and \<open>Writing, Now\<close> give true,
  though neither has \<open>now\<close> as a substring before it is lower-cased.
\<close>

theorem has_now_tag_spec:
  "(has_now_tag file \<longleftrightarrow>
      (\<exists>c v. read_file file = Some c \<and> parse_frontmatter c ''tags'' = Some v
             \<and> sublist ''now'' (lower v)))
   \<and> has_now_tag \<lparr>name = n, read_file = Some ''---\<newline>tags: now, writing\<newline>---\<newline>text''\<rparr>
   \<and> has_now_tag \<lparr>name = n, read_file = Some ''---\<newline>tags: unknown\<newline>---\<newline>text''\<rparr>
   \<and> \<not> has_now_tag \<lparr>name = n, read_file = Some ''---\<newline>tags: later\<newline>---\<newline>text''\<rparr>
   \<and> \<not> has_now_tag \<lparr>name = n, read_file = Some ''---\<newline>title: x\<newline>---\<newline>text''\<rparr>
   \<and> has_now_tag \<lparr>name = n, read_file = Some ''---\<newline>tags: NOW\<newline>---\<newline>text''\<rparr>
   \<and> has_now_tag \<lparr>name = n, read_file = Some ''---\<newline>tags: Writing, Now\<newline>---\<newline>text''\<rparr>
   \<and> has_now_tag \<lparr>name = n, read_file = Some ''---\<newline>tags: UNKNOWN\<newline>---\<newline>text''\<rparr>
   \<and> \<not> has_now_tag \<lparr>name = n, read_file = Some ''---\<newline>tags: LATER\<newline>---\<newline>text''\<rparr>
   \<and> lower ''NOW'' = ''now'' \<and> \<not> sublist ''now'' ''NOW''
   \<and> lower ''Writing, Now'' = ''writing, now'' \<and> \<not> sublist ''now'' ''Writing, Now''"
proof (intro conjI)
  show "has_now_tag file \<longleftrightarrow>
      (\<exists>c v. read_file file = Some c \<and> parse_frontmatter c ''tags'' = Some v
             \<and> sublist ''now'' (lower v))"
    by (rule has_now_tag_iff)
qed code_simp+

theorem has_now_tag_spec_witness:
  "has_now_tag \<lparr>name = ''a.md'', read_file = Some ''---\<newline>tags: Writing, NOW\<newline>---''\<rparr>
   \<and> parse_frontmatter ''---\<newline>tags: Writing, NOW\<newline>---'' ''tags'' = Some ''Writing, NOW''
   \<and> \<not> sublist ''now'' ''Writing, NOW''
   \<and> lower ''Writing, NOW'' = ''writing, now''
   \<and> (\<exists>c v. Some ''---\<newline>tags: Writing, NOW\<newline>---'' = Some c
            \<and> parse_frontmatter c ''tags'' = Some v \<and> sublist ''now'' (lower v))"
proof -
  have h: "has_now_tag \<lparr>name = ''a.md'', read_file = Some ''---\<newline>tags: Writing, NOW\<newline>---''\<rparr>"
    by code_simp
  have p: "parse_frontmatter ''---\<newline>tags: Writing, NOW\<newline>---'' ''tags'' = Some ''Writing, NOW''"
    by code_simp
  have s: "\<not> sublist ''now'' ''Writing, NOW''" by code_simp
  have l: "lower ''Writing, NOW'' = ''writing, now''" by code_simp
  have e: "\<exists>c v. Some ''---\<newline>tags: Writing, NOW\<newline>---'' = Some c
            \<and> parse_frontmatter c ''tags'' = Some v \<and> sublist ''now'' (lower v)"
    using h has_now_tag_spec
      [of "\<lparr>name = ''a.md'', read_file = Some ''---\<newline>tags: Writing, NOW\<newline>---''\<rparr>"]
    by simp
  show ?thesis using h p s l e by (intro conjI)
qed

section \<open>The two opening-marker tests (C10)\<close>

text \<open>
  C10, as stated, fails for a first line that is \<open>---\<close> followed by whitespace: the text
  still begins with \<open>---\<close>, so \<open>parse_frontmatter\<close> parses the block, and the note
  is classified public and now.
\<close>

theorem trailing_whitespace_marker_counterexample:
  "hd (splitlines ''--- \<newline>public: true\<newline>tags: now\<newline>---\<newline>[x](assets/x.png)'') = ''--- ''
   \<and> strip ''--- '' = ''---''
   \<and> splitlines ''--- \<newline>public: true\<newline>tags: now\<newline>---\<newline>[x](assets/x.png)'' ! 3 = ''---''
   \<and> parse_frontmatter ''--- \<newline>public: true\<newline>tags: now\<newline>---\<newline>[x](assets/x.png)'' ''public''
       = Some ''true''
   \<and> parse_frontmatter ''--- \<newline>public: true\<newline>tags: now\<newline>---\<newline>[x](assets/x.png)''
       \<noteq> Map.empty
   \<and> is_public_note \<lparr>name = ''n.md'', read_file =
        Some ''--- \<newline>public: true\<newline>tags: now\<newline>---\<newline>[x](assets/x.png)''\<rparr>
   \<and> has_now_tag \<lparr>name = ''n.md'', read_file =
        Some ''--- \<newline>public: true\<newline>tags: now\<newline>---\<newline>[x](assets/x.png)''\<rparr>"
proof -
  let ?T = "''--- \<newline>public: true\<newline>tags: now\<newline>---\<newline>[x](assets/x.png)''"
  have 1: "hd (splitlines ?T) = ''--- ''" by code_simp
  have 2: "strip ''--- '' = ''---''" by code_simp
  have 3: "splitlines ?T ! 3 = ''---''" by code_simp
  have 4: "parse_frontmatter ?T ''public'' = Some ''true''" by code_simp
  have 5: "parse_frontmatter ?T \<noteq> Map.empty"
  proof
    assume "parse_frontmatter ?T = Map.empty"
    then have "parse_frontmatter ?T ''public'' = None" by simp
    then show False using 4 by simp
  qed
  have 6: "is_public_note \<lparr>name = ''n.md'', read_file = Some ?T\<rparr>" by code_simp
  have 7: "has_now_tag \<lparr>name = ''n.md'', read_file = Some ?T\<rparr>" by code_simp
  show ?thesis using 1 2 3 4 5 6 7 by (intro conjI)
qed

text \<open>
  C10, amended.  \<open>parse_frontmatter\<close> returns the empty mapping, and the note is neither
  public nor now, whenever the text does not begin with \<open>---\<close>.
  \<open>extract_assets_from_file\<close> counts every line whose trimmed content is \<open>---\<close>: with
  two such lines, the body is what follows the second.  So for a text whose first line is
  \<open>---\<close> preceded by whitespace (whatever follows it on the line) and which has a later
  \<open>---\<close> line, the mapping is empty, the note is neither public nor now, and the body is
  the lines behind that later line.
\<close>

theorem marker_tests_differ:
  "(\<not> startswith content ''---'' \<longrightarrow>
      parse_frontmatter content = Map.empty
      \<and> \<not> is_public_note \<lparr>name = n, read_file = Some content\<rparr>
      \<and> \<not> has_now_tag \<lparr>name = n, read_file = Some content\<rparr>)
   \<and> (lines = pre @ sep1 # mid @ sep2 # after
        \<and> (\<forall>line\<in>set pre. strip line \<noteq> ''---'') \<and> strip sep1 = ''---''
        \<and> (\<forall>line\<in>set mid. strip line \<noteq> ''---'') \<and> strip sep2 = ''---''
      \<longrightarrow> content_lines lines = after)
   \<and> (splitlines content = first # between @ closing # body
        \<and> first \<noteq> [] \<and> is_space (hd first) \<and> strip first = ''---''
        \<and> (\<forall>line\<in>set between. strip line \<noteq> ''---'') \<and> strip closing = ''---''
      \<longrightarrow> parse_frontmatter content = Map.empty
          \<and> \<not> is_public_note \<lparr>name = n, read_file = Some content\<rparr>
          \<and> \<not> has_now_tag \<lparr>name = n, read_file = Some content\<rparr>
          \<and> content_lines (splitlines content) = body
          \<and> extract_assets_from_file \<lparr>name = n, read_file = Some content\<rparr>
              = concat (map (\<lambda>line. filter (sublist ''assets'') (findall line)) body))"
proof (intro conjI impI)
  assume a: "\<not> startswith content ''---''"
  then show e: "parse_frontmatter content = Map.empty" by (rule parse_frontmatter_no_opening)
  show "\<not> is_public_note \<lparr>name = n, read_file = Some content\<rparr>"
    using e by (rule no_frontmatter_not_classified)
  show "\<not> has_now_tag \<lparr>name = n, read_file = Some content\<rparr>"
    using e by (rule no_frontmatter_not_classified)
next
  assume "lines = pre @ sep1 # mid @ sep2 # after
        \<and> (\<forall>line\<in>set pre. strip line \<noteq> ''---'') \<and> strip sep1 = ''---''
        \<and> (\<forall>line\<in>set mid. strip line \<noteq> ''---'') \<and> strip sep2 = ''---''"
  then show "content_lines lines = after"
    using content_lines_two_separators [of lines pre sep1 mid sep2 after] by blast
next
  assume h: "splitlines content = first # between @ closing # body
        \<and> first \<noteq> [] \<and> is_space (hd first) \<and> strip first = ''---''
        \<and> (\<forall>line\<in>set between. strip line \<noteq> ''---'') \<and> strip closing = ''---''"
  then have "\<not> startswith content ''---''"
    using leading_space_no_opening [of content first "between @ closing # body"] by blast
  then show e: "parse_frontmatter content = Map.empty" by (rule parse_frontmatter_no_opening)
  show "\<not> is_public_note \<lparr>name = n, read_file = Some content\<rparr>"
    using e by (rule no_frontmatter_not_classified)
  show "\<not> has_now_tag \<lparr>name = n, read_file = Some content\<rparr>"
    using e by (rule no_frontmatter_not_classified)
  have "splitlines content = [] @ first # between @ closing # body" using h by simp
  then show c: "content_lines (splitlines content) = body"
    using h content_lines_two_separators [of "splitlines content" "[]" first between closing body]
    by simp
  show "extract_assets_from_file \<lparr>name = n, read_file = Some content\<rparr>
              = concat (map (\<lambda>line. filter (sublist ''assets'') (findall line)) body)"
    using c by (simp add: extract_assets_from_file_concat)
qed

theorem marker_tests_differ_witness:
  "splitlines '' ---\<newline>public: true\<newline>tags: now\<newline>---\<newline>[x](assets/x.png)''
     = '' ---'' # [''public: true'', ''tags: now''] @ ''---'' # [''[x](assets/x.png)'']
   \<and> is_space (hd '' ---'') \<and> strip '' ---'' = ''---''
   \<and> parse_frontmatter '' ---\<newline>public: true\<newline>tags: now\<newline>---\<newline>[x](assets/x.png)'' = Map.empty
   \<and> \<not> is_public_note \<lparr>name = ''n.md'', read_file =
         Some '' ---\<newline>public: true\<newline>tags: now\<newline>---\<newline>[x](assets/x.png)''\<rparr>
   \<and> \<not> has_now_tag \<lparr>name = ''n.md'', read_file =
         Some '' ---\<newline>public: true\<newline>tags: now\<newline>---\<newline>[x](assets/x.png)''\<rparr>
   \<and> content_lines (splitlines '' ---\<newline>public: true\<newline>tags: now\<newline>---\<newline>[x](assets/x.png)'')
       = [''[x](assets/x.png)'']
   \<and> extract_assets_from_file \<lparr>name = ''n.md'', read_file =
         Some '' ---\<newline>public: true\<newline>tags: now\<newline>---\<newline>[x](assets/x.png)''\<rparr>
       = concat (map (\<lambda>line. filter (sublist ''assets'') (findall line)) [''[x](assets/x.png)''])"
proof -
  let ?T = "'' ---\<newline>public: true\<newline>tags: now\<newline>---\<newline>[x](assets/x.png)''"
  let ?between = "[''public: true'', ''tags: now'']"
  have h1: "splitlines ?T = '' ---'' # ?between @ ''---'' # [''[x](assets/x.png)'']" by code_simp
  have h2: "'' ---'' \<noteq> []" by simp
  have h3: "is_space (hd '' ---'')" by code_simp
  have h4: "strip '' ---'' = ''---''" by code_simp
  have h5: "\<forall>line\<in>set ?between. strip line \<noteq> ''---''" by code_simp
  have h6: "strip ''---'' = ''---''" by code_simp
  have "parse_frontmatter ?T = Map.empty
          \<and> \<not> is_public_note \<lparr>name = ''n.md'', read_file = Some ?T\<rparr>
          \<and> \<not> has_now_tag \<lparr>name = ''n.md'', read_file = Some ?T\<rparr>
          \<and> content_lines (splitlines ?T) = [''[x](assets/x.png)'']
          \<and> extract_assets_from_file \<lparr>name = ''n.md'', read_file = Some ?T\<rparr>
              = concat (map (\<lambda>line. filter (sublist ''assets'') (findall line)) [''[x](assets/x.png)''])"
    by (rule mp [OF conjunct2 [OF conjunct2 [OF marker_tests_differ
          [of ?T "''n.md''" _ _ _ _ _ _ "'' ---''" ?between "''---''" "[''[x](assets/x.png)'']"]]]])
       (intro conjI h1 h2 h3 h4 h5 h6)
  then show ?thesis using h1 h3 h4 by (intro conjI) (elim conjE, assumption)+
qed

end
